theory Spec2Isabelle
  imports Complex_Main "HOL-Library.Char_ord" "HOL-Library.List_Lexorder" "HOL-Library.AList"
begin

section \<open>Python strings\<close>

text \<open>
  The texts of the alerts are Python strings that the code cuts with slices and puts in
  lower case, so they are lists of Unicode code points, \<^typ>\<open>nat\<close> each: \<open>pystr\<close>.
  Identifiers, statuses and names are only compared, looked up, tested for a prefix or
  a suffix and sorted; for them a \<^typ>\<open>string\<close> is used, read as the UTF-8 bytes of the
  Python string, which gives the same answers to all of these.
\<close>

type_synonym pystr = "nat list"

text \<open>A string literal of the source that has ASCII characters only.\<close>

definition ascii :: "string \<Rightarrow> pystr" where
  "ascii s = map of_char s"

text \<open>
  \<open>str.lower()\<close> replaces every character of the string by its lowercase mapping, a
  string of one to three characters that may depend on the characters before and after
  it (as for U+03A3, the capital sigma). For the characters of ASCII the mapping turns
  the capitals into the small letters. Two characters beyond ASCII have a mapping that
  contains an ASCII character: U+212A KELVIN SIGN becomes \<open>k\<close>, and U+0130 becomes \<open>i\<close>
  followed by U+0307. The mapping of every other character is the Unicode table, which
  is a parameter here: \<open>ul pre c suf\<close> is the mapping of the character \<open>c\<close> that stands
  between \<open>pre\<close> and \<open>suf\<close>.
\<close>

type_synonym unicode_lower = "pystr \<Rightarrow> nat \<Rightarrow> pystr \<Rightarrow> pystr"

definition lower_at :: "unicode_lower \<Rightarrow> pystr \<Rightarrow> nat \<Rightarrow> pystr \<Rightarrow> pystr" where
  "lower_at ul pre c suf =
     (if 65 \<le> c \<and> c \<le> 90 then [c + 32]
      else if c < 128 then [c]
      else if c = 0x212A then [107]
      else if c = 0x130 then [105, 0x307]
      else ul pre c suf)"

fun lower_from :: "unicode_lower \<Rightarrow> pystr \<Rightarrow> pystr \<Rightarrow> pystr" where
  "lower_from ul pre [] = []"
| "lower_from ul pre (c # suf) = lower_at ul pre c suf @ lower_from ul (pre @ [c]) suf"

definition lower :: "unicode_lower \<Rightarrow> pystr \<Rightarrow> pystr" where
  "lower ul s = lower_from ul [] s"

text \<open>What the Unicode table guarantees for the characters left to it: their mapping is
  not empty and has no ASCII character.\<close>

definition beyond_ascii :: "unicode_lower \<Rightarrow> bool" where
  "beyond_ascii ul =
     (\<forall>pre c suf. 128 \<le> c \<and> c \<noteq> 0x212A \<and> c \<noteq> 0x130 \<longrightarrow>
        ul pre c suf \<noteq> [] \<and> (\<forall>d \<in> set (ul pre c suf). 128 \<le> d))"

text \<open>A table with one entry, U+00C9 to U+00E9, that leaves every other character as it
  is.\<close>

definition sample_lower :: unicode_lower where
  "sample_lower pre c suf = (if c = 0xC9 then [0xE9] else [c])"

text \<open>\<open>s.startswith(p)\<close>, \<open>s.endswith(p)\<close> and \<open>sub in s\<close>.\<close>

definition startswith :: "'a list \<Rightarrow> 'a list \<Rightarrow> bool" where
  "startswith s p = (take (length p) s = p)"

definition endswith :: "'a list \<Rightarrow> 'a list \<Rightarrow> bool" where
  "endswith s p = (length p \<le> length s \<and> drop (length s - length p) s = p)"

fun contains :: "'a list \<Rightarrow> 'a list \<Rightarrow> bool" where
  "contains sub [] = (sub = [])"
| "contains sub (c # cs) = (startswith (c # cs) sub \<or> contains sub cs)"

text \<open>Truthiness of the result of \<open>dict.get\<close> on a row of strings: \<open>None\<close> and the empty
  string are false.\<close>

fun truthy :: "string option \<Rightarrow> bool" where
  "truthy None = False"
| "truthy (Some s) = (s \<noteq> [])"

datatype py_error = KeyError | ValueError | BadZipFile | DatabaseError

section \<open>Decoded real-time feeds\<close>

text \<open>
  The protocol-buffer messages that the code reads, field by field. An optional field
  tested with \<open>HasField\<close> is an \<open>option\<close>; a repeated field is a list. A translated
  string is the list of the texts of its translations. \<open>fetch_gtfs_feed\<close> returns the
  decoded message, or \<open>None\<close> after any failure of the request or of the decoding: a
  fetched feed is a \<open>feed option\<close>.
\<close>

record stop_time_update =
  stop_id :: string
  arrival :: "int option"

record trip_update =
  route_id :: string
  stop_time_update :: "stop_time_update list"

record alert =
  informed_entity :: "string option list"
  header_text :: "pystr list"
  description_text :: "pystr list"

record entity =
  trip_update :: "trip_update option"
  alert :: "alert option"

type_synonym feed = "entity list"

section \<open>Alert classifier: \<open>get_route_status_from_alerts\<close>\<close>

record message =
  m_header :: pystr
  m_description :: pystr
  m_text :: pystr
  m_status :: string

record route_info =
  r_status :: string
  r_messages :: "message list"

type_synonym route_status = "string \<rightharpoonup> route_info"

text \<open>The separator of the f-string that joins header and description, as the source
  file has it: a space, the three characters U+00E2, U+20AC and U+201D, a space.\<close>

definition separator :: pystr where
  "separator = [0x20, 0xE2, 0x20AC, 0x201D, 0x20]"

definition combine_text :: "pystr \<Rightarrow> pystr \<Rightarrow> pystr" where
  "combine_text header description =
     (if header \<noteq> [] \<and> description \<noteq> [] then header @ separator @ description
      else if header \<noteq> [] then header
      else if description \<noteq> [] then description
      else ascii ''Service alert'')"

text \<open>The keyword chain that sets \<open>status\<close> from \<open>combined_text\<close>.\<close>

definition classify_status :: "unicode_lower \<Rightarrow> pystr \<Rightarrow> string" where
  "classify_status ul combined_text =
     (let combined_text_lower = lower ul combined_text in
      if contains (ascii ''suspended'') combined_text_lower
         \<or> contains (ascii ''no service'') combined_text_lower
         \<or> contains (ascii ''not operating'') combined_text_lower
      then ''service-change''
      else if contains (ascii ''delayed'') combined_text_lower
         \<or> contains (ascii ''delay'') combined_text_lower
         \<or> contains (ascii ''running behind'') combined_text_lower
      then ''delay''
      else if contains (ascii ''skip'') combined_text_lower
         \<or> contains (ascii ''skips'') combined_text_lower
         \<or> contains (ascii ''skip stops'') combined_text_lower
      then ''service-change''
      else if contains (ascii ''express'') combined_text_lower
         \<and> (contains (ascii ''running'') combined_text_lower
              \<or> contains (ascii ''skip'') combined_text_lower)
      then ''service-change''
      else if contains (ascii ''modified schedule'') combined_text_lower
         \<or> contains (ascii ''adjusted schedule'') combined_text_lower
      then ''service-change''
      else ''good'')"

definition status_priority :: "string \<rightharpoonup> nat" where
  "status_priority = [''service-change'' \<mapsto> 2, ''delay'' \<mapsto> 1, ''good'' \<mapsto> 0]"

text \<open>The message built for one alert: header and description are the text of the first
  translation, or empty; the status is classified on the whole combined text, and the
  three texts are cut to 200, 1000 and 300 characters afterwards. \<open>ul\<close> is the Unicode
  table that \<open>lower\<close> consults; the classifier and the endpoint pass it down.\<close>

definition alert_message :: "unicode_lower \<Rightarrow> alert \<Rightarrow> message" where
  "alert_message ul a =
     (let header = (case header_text a of [] \<Rightarrow> [] | t # _ \<Rightarrow> t);
          description = (case description_text a of [] \<Rightarrow> [] | t # _ \<Rightarrow> t);
          combined_text = combine_text header description;
          status = classify_status ul combined_text
      in \<lparr>m_header = take 200 header, m_description = take 1000 description,
          m_text = take 300 combined_text, m_status = status\<rparr>)"

text \<open>
  Folding one message into the mapping: the route's entry is created with status
  \<open>good\<close> and no message if the route is new, the message is appended, and the route's
  status is replaced when the message's priority is strictly greater. Both look-ups in
  \<open>status_priority\<close> raise \<open>KeyError\<close> on an unknown status; the mapping has the message
  appended by then, and that mapping is what the handler of the exception returns.
\<close>

definition fold_message :: "route_status \<Rightarrow> string \<Rightarrow> message \<Rightarrow> (py_error \<times> route_status) + route_status" where
  "fold_message rs rid msg =
     (let entry = (case rs rid of None \<Rightarrow> \<lparr>r_status = ''good'', r_messages = []\<rparr> | Some e \<Rightarrow> e);
          entry' = entry\<lparr>r_messages := r_messages entry @ [msg]\<rparr>;
          rs' = rs(rid \<mapsto> entry')
      in case status_priority (m_status msg) of
           None \<Rightarrow> Inl (KeyError, rs')
         | Some p \<Rightarrow>
             (case status_priority (r_status entry') of
                None \<Rightarrow> Inl (KeyError, rs')
              | Some q \<Rightarrow>
                  Inr (if p > q then rs'(rid \<mapsto> entry'\<lparr>r_status := m_status msg\<rparr>) else rs')))"

text \<open>The loop over the informed entities of one alert, and the loop over the entities
  of the feed. An exception leaves both loops.\<close>

fun informed_loop :: "unicode_lower \<Rightarrow> route_status \<Rightarrow> alert \<Rightarrow> string option list \<Rightarrow> (py_error \<times> route_status) + route_status" where
  "informed_loop ul rs a [] = Inr rs"
| "informed_loop ul rs a (None # ies) = informed_loop ul rs a ies"
| "informed_loop ul rs a (Some rid # ies) =
     (case fold_message rs rid (alert_message ul a) of
        Inl e \<Rightarrow> Inl e
      | Inr rs' \<Rightarrow> informed_loop ul rs' a ies)"

fun entity_loop :: "unicode_lower \<Rightarrow> route_status \<Rightarrow> entity list \<Rightarrow> (py_error \<times> route_status) + route_status" where
  "entity_loop ul rs [] = Inr rs"
| "entity_loop ul rs (e # es) =
     (case alert e of
        None \<Rightarrow> entity_loop ul rs es
      | Some a \<Rightarrow>
          (case informed_loop ul rs a (informed_entity a) of
             Inl x \<Rightarrow> Inl x
           | Inr rs' \<Rightarrow> entity_loop ul rs' es))"

definition get_route_status_from_alerts :: "unicode_lower \<Rightarrow> feed option \<Rightarrow> route_status" where
  "get_route_status_from_alerts ul fetched =
     (case fetched of
        None \<Rightarrow> Map.empty
      | Some feed \<Rightarrow>
          (case entity_loop ul Map.empty feed of
             Inl (e, route_status) \<Rightarrow> route_status
           | Inr route_status \<Rightarrow> route_status))"

section \<open>Service status aggregator: \<open>get_service_status\<close>\<close>

text \<open>The catalog \<open>all_lines\<close>, in the order of the dictionary literal: identifier,
  name and type of each line.\<close>

definition all_lines :: "(string \<times> string \<times> string) list" where
  "all_lines =
     [(''1'', ''1 Line'', ''subway''), (''2'', ''2 Line'', ''subway''),
      (''3'', ''3 Line'', ''subway''), (''4'', ''4 Line'', ''subway''),
      (''5'', ''5 Line'', ''subway''), (''6'', ''6 Line'', ''subway''),
      (''7'', ''7 Line'', ''subway''), (''A'', ''A Line'', ''subway''),
      (''B'', ''B Line'', ''subway''), (''C'', ''C Line'', ''subway''),
      (''D'', ''D Line'', ''subway''), (''E'', ''E Line'', ''subway''),
      (''F'', ''F Line'', ''subway''), (''G'', ''G Line'', ''subway''),
      (''J'', ''J Line'', ''subway''), (''L'', ''L Line'', ''subway''),
      (''M'', ''M Line'', ''subway''), (''N'', ''N Line'', ''subway''),
      (''Q'', ''Q Line'', ''subway''), (''R'', ''R Line'', ''subway''),
      (''W'', ''W Line'', ''subway''), (''Z'', ''Z Line'', ''subway''),
      (''SI'', ''Staten Island Railway'', ''subway''), (''S'', ''Shuttle (S)'', ''subway'')]"

record service =
  s_id :: string
  s_name :: string
  s_type :: string
  s_status :: string
  s_message :: pystr
  s_messages :: "message list"

definition good_service_message :: message where
  "good_service_message =
     \<lparr>m_header = ascii ''Good Service'', m_description = [], m_text = ascii ''Good Service'',
      m_status = ''good''\<rparr>"

text \<open>The body of the loop over the catalog. For a route of the mapping the primary text
  is the text of the first message, or \<open>Service alert\<close> when the list of messages is
  empty.\<close>

definition service_entry :: "route_status \<Rightarrow> string \<times> string \<times> string \<Rightarrow> service" where
  "service_entry route_status line =
     (case line of (rid, name, type) \<Rightarrow>
        (case route_status rid of
           Some status_info \<Rightarrow>
             \<lparr>s_id = rid, s_name = name, s_type = type, s_status = r_status status_info,
              s_message = (case r_messages status_info of [] \<Rightarrow> ascii ''Service alert'' | m # _ \<Rightarrow> m_text m),
              s_messages = r_messages status_info\<rparr>
         | None \<Rightarrow>
             \<lparr>s_id = rid, s_name = name, s_type = type, s_status = ''good'',
              s_message = ascii ''Good Service'', s_messages = [good_service_message]\<rparr>))"

definition build_service_data :: "route_status \<Rightarrow> service list" where
  "build_service_data route_status = map (service_entry route_status) all_lines"

subsection \<open>The table \<open>service_status_cache\<close>\<close>

text \<open>
  The table as \<open>init_db\<close> creates it: \<open>id INTEGER PRIMARY KEY AUTOINCREMENT\<close>,
  \<open>route_id\<close>, \<open>status\<close>, \<open>message\<close>, \<open>updated_at\<close>. The primary key on \<open>id\<close> is its
  only uniqueness constraint. The state of the table is its rows, in the order of their
  insertion, and the largest \<open>id\<close> ever given out, which \<open>AUTOINCREMENT\<close> keeps.
\<close>

record cache_row =
  c_id :: nat
  c_route_id :: string
  c_status :: string
  c_message :: pystr
  c_updated_at :: int

record cache_table =
  rows :: "cache_row list"
  last_id :: nat

definition empty_table :: cache_table where
  "empty_table = \<lparr>rows = [], last_id = 0\<rparr>"

text \<open>
  \<open>INSERT OR REPLACE INTO service_status_cache (route_id, status, message, updated_at)\<close>:
  no \<open>id\<close> is given, so the row gets the next one, one more than the largest ever used.
  \<open>OR REPLACE\<close> deletes the rows that conflict with the new row on a uniqueness
  constraint, here the rows with the same \<open>id\<close>, and then inserts.
\<close>

definition insert_or_replace :: "cache_table \<Rightarrow> string \<Rightarrow> string \<Rightarrow> pystr \<Rightarrow> int \<Rightarrow> cache_table" where
  "insert_or_replace t rid status msg updated_at =
     (let new_id = Suc (max (last_id t) (fold max (map c_id (rows t)) 0));
          new_row = \<lparr>c_id = new_id, c_route_id = rid, c_status = status, c_message = msg,
                     c_updated_at = updated_at\<rparr>
      in \<lparr>rows = filter (\<lambda>r. c_id r \<noteq> new_id) (rows t) @ [new_row], last_id = new_id\<rparr>)"

text \<open>\<open>sep.join(parts)\<close>.\<close>

fun join :: "'a list \<Rightarrow> 'a list list \<Rightarrow> 'a list" where
  "join sep [] = []"
| "join sep [x] = x"
| "join sep (x # y # ys) = x @ sep @ join sep (y # ys)"

text \<open>A clock gives the successive readings of \<open>datetime.now()\<close> within one request, as
  seconds: \<open>clk k\<close> is the reading of call number \<open>k\<close>.\<close>

type_synonym clock = "nat \<Rightarrow> int"

text \<open>The loop that stores one row for each service; \<open>k\<close> counts the readings of the
  clock made so far.\<close>

fun cache_results :: "clock \<Rightarrow> nat \<Rightarrow> cache_table \<Rightarrow> service list \<Rightarrow> cache_table" where
  "cache_results clk k t [] = t"
| "cache_results clk k t (service # rest) =
     cache_results clk (Suc k)
       (insert_or_replace t (s_id service) (s_status service)
          (join (ascii ''|'') (map m_text (s_messages service))) (clk k))
       rest"

datatype status_response =
    Status_live "service list" int
  | Status_cached "cache_row list"
  | Status_error

text \<open>
  The endpoint. \<open>fetched\<close> is what \<open>fetch_gtfs_feed\<close> returned for the alerts feed.
  \<open>write_ok\<close> says whether the database accepts the transaction that caches the results;
  when it raises, nothing is committed and the handler of the exception reads the table,
  which \<open>read_ok\<close> says succeeds or raises again. The response and the table afterwards
  are returned.
\<close>

definition get_service_status :: "unicode_lower \<Rightarrow> feed option \<Rightarrow> bool \<Rightarrow> bool \<Rightarrow> clock \<Rightarrow> cache_table \<Rightarrow> status_response \<times> cache_table" where
  "get_service_status ul fetched write_ok read_ok clk t =
     (let route_status = get_route_status_from_alerts ul fetched;
          service_data = build_service_data route_status
      in if write_ok
         then (Status_live service_data (clk (length service_data)),
               cache_results clk 0 t service_data)
         else if read_ok \<and> rows t \<noteq> [] then (Status_cached (rows t), t)
         else (Status_error, t))"

section \<open>Arrival extractor: \<open>get_arrivals\<close>\<close>

record arrival_entry =
  line :: string
  direction :: string
  minutes :: int

text \<open>The body of the loop over the stop-time updates of a trip: \<open>None\<close> when the stop
  does not match the station or has no arrival. \<open>current_time\<close> is the reading of the
  clock made for this update.\<close>

definition stop_time_arrival :: "string \<Rightarrow> string \<Rightarrow> int \<Rightarrow> stop_time_update \<Rightarrow> arrival_entry option" where
  "stop_time_arrival station_id rid current_time stop_time =
     (if startswith (stop_id stop_time) station_id
      then (case arrival stop_time of
              None \<Rightarrow> None
            | Some arrival_time \<Rightarrow>
                Some \<lparr>line = rid,
                      direction = (if endswith (stop_id stop_time) ''N'' then ''Uptown'' else ''Downtown''),
                      minutes = max 0 ((arrival_time - current_time) div 60)\<rparr>)
      else None)"

text \<open>The three loops; the state is the list of arrivals and the number of readings of
  the clock so far. The clock is read only for an update that matches and has an arrival.\<close>

fun stop_time_loop :: "string \<Rightarrow> string \<Rightarrow> clock \<Rightarrow> arrival_entry list \<times> nat \<Rightarrow> stop_time_update list \<Rightarrow> arrival_entry list \<times> nat" where
  "stop_time_loop station_id rid clk (arrivals, k) [] = (arrivals, k)"
| "stop_time_loop station_id rid clk (arrivals, k) (stop_time # rest) =
     (case stop_time_arrival station_id rid (clk k) stop_time of
        None \<Rightarrow> stop_time_loop station_id rid clk (arrivals, k) rest
      | Some a \<Rightarrow> stop_time_loop station_id rid clk (arrivals @ [a], Suc k) rest)"

fun trip_loop :: "string \<Rightarrow> clock \<Rightarrow> arrival_entry list \<times> nat \<Rightarrow> entity list \<Rightarrow> arrival_entry list \<times> nat" where
  "trip_loop station_id clk st [] = st"
| "trip_loop station_id clk st (e # es) =
     (case trip_update e of
        None \<Rightarrow> trip_loop station_id clk st es
      | Some trip \<Rightarrow>
          trip_loop station_id clk
            (stop_time_loop station_id (route_id trip) clk st (stop_time_update trip)) es)"

fun feed_loop :: "string \<Rightarrow> clock \<Rightarrow> arrival_entry list \<times> nat \<Rightarrow> feed option list \<Rightarrow> arrival_entry list \<times> nat" where
  "feed_loop station_id clk st [] = st"
| "feed_loop station_id clk st (None # feeds) = feed_loop station_id clk st feeds"
| "feed_loop station_id clk st (Some feed # feeds) =
     feed_loop station_id clk (trip_loop station_id clk st feed) feeds"

datatype arrivals_response =
    Arrivals_ok string "arrival_entry list"
  | Arrivals_error

text \<open>The endpoint. \<open>feeds\<close> holds what \<open>fetch_gtfs_feed\<close> returned for each of the feeds of
  \<open>MTA_FEEDS\<close>, in their order. \<open>list.sort\<close> is stable, as \<^const>\<open>sort_key\<close> is.\<close>

definition get_arrivals :: "string \<Rightarrow> feed option list \<Rightarrow> clock \<Rightarrow> arrivals_response" where
  "get_arrivals station_id feeds clk =
     (let arrivals = fst (feed_loop station_id clk ([], 0) feeds);
          arrivals = sort_key minutes arrivals;
          arrivals = take 10 arrivals
      in Arrivals_ok station_id arrivals)"

fun arrivals_of :: "arrivals_response \<Rightarrow> arrival_entry list" where
  "arrivals_of (Arrivals_ok station_id arrivals) = arrivals"
| "arrivals_of Arrivals_error = []"

section \<open>Static schedule loader: \<open>download_gtfs_static\<close>\<close>

text \<open>
  A row of a table is what \<open>csv.DictReader\<close> yields: a dictionary from column names to
  strings. An archive maps the name of a member to its rows, \<open>None\<close> for a member that
  cannot be read or decoded. The content of a file is what \<open>zipfile.ZipFile\<close> makes of
  it: an archive, or \<open>None\<close> for a file that is not one.
\<close>

type_synonym row = "string \<rightharpoonup> string"

type_synonym archive = "string \<rightharpoonup> row list option"

type_synonym content = "archive option"

text \<open>The local storage at \<open>GTFS_ZIP_PATH\<close>: absent, or a file with its modification
  time and content. Times are seconds, as \<open>time.time()\<close> gives them.\<close>

type_synonym disk = "(real \<times> content) option"

definition GTFS_ZIP_PATH :: string where
  "GTFS_ZIP_PATH = ''google_transit.zip''"

definition GTFS_CACHE_TTL :: real where
  "GTFS_CACHE_TTL = 60 * 60 * 24"

text \<open>
  \<open>now\<close> is the reading of \<open>time.time()\<close>; \<open>response\<close> is the content that the request
  for \<open>GTFS_STATIC_URL\<close> delivers, \<open>None\<close> when the request raises (no connection, a
  time-out, a status that \<open>raise_for_status\<close> rejects). The function returns the path or
  \<open>None\<close>, and the storage afterwards; \<open>fetch_static\<close> is the request followed by the
  write of its content. Reading and writing the local file are taken to succeed, and a
  file written is stamped with \<open>now\<close>.
\<close>

definition fetch_static :: "real \<Rightarrow> content option \<Rightarrow> disk \<Rightarrow> string option \<times> disk" where
  "fetch_static now response d =
     (case response of
        None \<Rightarrow> (None, d)
      | Some c \<Rightarrow> (Some GTFS_ZIP_PATH, Some (now, c)))"

definition download_gtfs_static :: "bool \<Rightarrow> real \<Rightarrow> content option \<Rightarrow> disk \<Rightarrow> string option \<times> disk" where
  "download_gtfs_static force now response d =
     (case d of
        Some (mtime, c) \<Rightarrow>
          if \<not> force \<and> now - mtime < GTFS_CACHE_TTL then (Some GTFS_ZIP_PATH, d)
          else fetch_static now response d
      | None \<Rightarrow> fetch_static now response d)"

section \<open>Route topology builder: \<open>parse_gtfs_static\<close>\<close>

text \<open>
  Python's \<open>int\<close> and \<open>float\<close> on a string are parameters of the model: \<open>py_int s\<close> and
  \<open>py_float s\<close> are the number read, or \<open>None\<close> where Python raises \<open>ValueError\<close>.
  Coordinates are real numbers. Dictionaries whose order of iteration the code uses are
  association lists in the order of first insertion, which \<^const>\<open>AList.update\<close> keeps.
\<close>

record stop =
  st_stop_id :: string
  st_name :: string
  st_lat :: real
  st_lon :: real
  st_lines :: "string set"

record polyline =
  p_id :: string
  p_name :: string
  p_coordinates :: "(real \<times> real) list"

record stop_entry =
  e_id :: string
  e_name :: string
  e_lat :: real
  e_lon :: real
  e_lines :: "string list"

definition read_csv :: "archive \<Rightarrow> string \<Rightarrow> py_error + row list" where
  "read_csv z name =
     (case z name of
        None \<Rightarrow> Inr []
      | Some None \<Rightarrow> Inl ValueError
      | Some (Some rs) \<Rightarrow> Inr rs)"

text \<open>\<open>float(v or 0)\<close> and \<open>int(v or 0)\<close> for the result \<open>v\<close> of \<open>dict.get\<close>.\<close>

definition float_or_0 :: "(string \<Rightarrow> real option) \<Rightarrow> string option \<Rightarrow> real option" where
  "float_or_0 py_float v = (case v of None \<Rightarrow> Some 0 | Some s \<Rightarrow> if s = [] then Some 0 else py_float s)"

definition int_or_0 :: "(string \<Rightarrow> int option) \<Rightarrow> string option \<Rightarrow> int option" where
  "int_or_0 py_int v = (case v of None \<Rightarrow> Some 0 | Some s \<Rightarrow> if s = [] then Some 0 else py_int s)"

text \<open>\<open>r.get('stop_name') or r.get('stop_desc') or stop_id\<close>.\<close>

definition stop_name_of :: "row \<Rightarrow> string \<Rightarrow> string" where
  "stop_name_of r sid =
     (case r ''stop_name'' of
        Some n \<Rightarrow> if n \<noteq> [] then n
                   else (case r ''stop_desc'' of Some d \<Rightarrow> if d \<noteq> [] then d else sid | None \<Rightarrow> sid)
      | None \<Rightarrow> (case r ''stop_desc'' of Some d \<Rightarrow> if d \<noteq> [] then d else sid | None \<Rightarrow> sid))"

text \<open>Map stops.\<close>

fun map_stops :: "(string \<Rightarrow> real option) \<Rightarrow> (string \<times> stop) list \<Rightarrow> row list \<Rightarrow> (string \<times> stop) list" where
  "map_stops py_float stops [] = stops"
| "map_stops py_float stops (r # rs) =
     (case r ''stop_id'' of
        None \<Rightarrow> map_stops py_float stops rs
      | Some sid \<Rightarrow>
          if sid = [] then map_stops py_float stops rs
          else
            (let (lat, lon) =
                   (case float_or_0 py_float (r ''stop_lat'') of
                      None \<Rightarrow> (0, 0)
                    | Some la \<Rightarrow>
                        (case float_or_0 py_float (r ''stop_lon'') of
                           None \<Rightarrow> (0, 0)
                         | Some lo \<Rightarrow> (la, lo)))
             in map_stops py_float
                  (AList.update sid
                     \<lparr>st_stop_id = sid, st_name = stop_name_of r sid, st_lat = lat, st_lon = lon,
                      st_lines = {}\<rparr> stops)
                  rs))"

text \<open>Map trips to routes.\<close>

fun map_trips :: "(string \<rightharpoonup> string) \<Rightarrow> row list \<Rightarrow> (string \<rightharpoonup> string)" where
  "map_trips trip_to_route [] = trip_to_route"
| "map_trips trip_to_route (r # rs) =
     (if truthy (r ''trip_id'') \<and> truthy (r ''route_id'')
      then map_trips (trip_to_route(the (r ''trip_id'') \<mapsto> the (r ''route_id''))) rs
      else map_trips trip_to_route rs)"

text \<open>\<open>d.setdefault(k, []).append(v)\<close> on a dictionary of lists.\<close>

definition setdefault_append :: "string \<Rightarrow> 'a \<Rightarrow> (string \<times> 'a list) list \<Rightarrow> (string \<times> 'a list) list" where
  "setdefault_append k v d =
     AList.update k ((case map_of d k of None \<Rightarrow> [] | Some vs \<Rightarrow> vs) @ [v]) d"

text \<open>Collect the stop sequences of the trips. The sequence number is converted before
  the row is tested, so a number that cannot be read raises for any row.\<close>

fun collect_stopseq :: "(string \<Rightarrow> int option) \<Rightarrow> (string \<times> (int \<times> string) list) list \<Rightarrow> row list
    \<Rightarrow> py_error + (string \<times> (int \<times> string) list) list" where
  "collect_stopseq py_int trip_stopseq [] = Inr trip_stopseq"
| "collect_stopseq py_int trip_stopseq (r # rs) =
     (case int_or_0 py_int (r ''stop_sequence'') of
        None \<Rightarrow> Inl ValueError
      | Some seq \<Rightarrow>
          if \<not> truthy (r ''trip_id'') \<or> \<not> truthy (r ''stop_id'')
          then collect_stopseq py_int trip_stopseq rs
          else collect_stopseq py_int
                 (setdefault_append (the (r ''trip_id'')) (seq, the (r ''stop_id'')) trip_stopseq) rs)"

text \<open>Group the ordered stop lists of the trips by route.\<close>

fun group_trips :: "(string \<rightharpoonup> string) \<Rightarrow> (string \<times> string list list) list
    \<Rightarrow> (string \<times> (int \<times> string) list) list \<Rightarrow> (string \<times> string list list) list" where
  "group_trips trip_to_route route_trips [] = route_trips"
| "group_trips trip_to_route route_trips ((trip_id, seqs) # rest) =
     (if \<not> truthy (trip_to_route trip_id) then group_trips trip_to_route route_trips rest
      else
        (let ordered = map snd (sort_key fst seqs)
         in group_trips trip_to_route
              (setdefault_append (the (trip_to_route trip_id)) ordered route_trips) rest))"

text \<open>\<open>max(trips, key=lambda x: len(x))\<close>: the first of the longest trips; \<open>ValueError\<close>
  on an empty list.\<close>

fun longest :: "'a list list \<Rightarrow> py_error + 'a list" where
  "longest [] = Inl ValueError"
| "longest (t # ts) = Inr (fold (\<lambda>x best. if length best < length x then x else best) ts t)"

text \<open>
  The loop over the stops of the representative trip. Its state is the stops, the
  coordinates collected and the set \<open>seen\<close>. A stop that is not in \<open>stops\<close> is passed
  over, and so is a stop whose identifier is in \<open>seen\<close>; any other is added to \<open>seen\<close>,
  its coordinates are appended, and the route is added to its lines.
\<close>

fun coords_loop :: "string \<Rightarrow> (string \<times> stop) list \<times> (real \<times> real) list \<times> string set \<Rightarrow> string list
    \<Rightarrow> (string \<times> stop) list \<times> (real \<times> real) list \<times> string set" where
  "coords_loop rid (stops, coords, seen) [] = (stops, coords, seen)"
| "coords_loop rid (stops, coords, seen) (sid # rest) =
     (case map_of stops sid of
        None \<Rightarrow> coords_loop rid (stops, coords, seen) rest
      | Some s \<Rightarrow>
          if sid \<in> seen then coords_loop rid (stops, coords, seen) rest
          else coords_loop rid
                 (AList.update sid (s\<lparr>st_lines := insert rid (st_lines s)\<rparr>) stops,
                  coords @ [(st_lat s, st_lon s)],
                  insert sid seen)
                 rest)"

text \<open>For each route, pick the trip with the most stops as representative.\<close>

fun build_polylines :: "(string \<times> stop) list \<times> (string \<times> polyline) list \<Rightarrow> (string \<times> string list list) list
    \<Rightarrow> py_error + (string \<times> stop) list \<times> (string \<times> polyline) list" where
  "build_polylines (stops, route_polylines) [] = Inr (stops, route_polylines)"
| "build_polylines (stops, route_polylines) ((rid, trips) # rest) =
     (case longest trips of
        Inl e \<Rightarrow> Inl e
      | Inr best \<Rightarrow>
          (case coords_loop rid (stops, [], {}) best of
             (stops', coords, seen) \<Rightarrow>
               build_polylines
                 (stops',
                  AList.update rid \<lparr>p_id = rid, p_name = rid, p_coordinates = coords\<rparr> route_polylines)
                 rest))"

definition stop_entry_of :: "stop \<Rightarrow> stop_entry" where
  "stop_entry_of s =
     \<lparr>e_id = st_stop_id s, e_name = st_name s, e_lat = st_lat s, e_lon = st_lon s,
      e_lines = sorted_list_of_set (st_lines s)\<rparr>"

text \<open>What the body of the \<open>try\<close> statement computes from an archive.\<close>

definition parse_archive :: "(string \<Rightarrow> int option) \<Rightarrow> (string \<Rightarrow> real option) \<Rightarrow> archive
    \<Rightarrow> py_error + (string \<times> polyline) list \<times> stop_entry list" where
  "parse_archive py_int py_float z =
     (case read_csv z ''stops.txt'' of
        Inl e \<Rightarrow> Inl e
      | Inr stops_rows \<Rightarrow>
     (case read_csv z ''trips.txt'' of
        Inl e \<Rightarrow> Inl e
      | Inr trips_rows \<Rightarrow>
     (case read_csv z ''stop_times.txt'' of
        Inl e \<Rightarrow> Inl e
      | Inr stop_times_rows \<Rightarrow>
          (let stops = map_stops py_float [] stops_rows;
               trip_to_route = map_trips Map.empty trips_rows
           in case collect_stopseq py_int [] stop_times_rows of
                Inl e \<Rightarrow> Inl e
              | Inr trip_stopseq \<Rightarrow>
                  (case build_polylines (stops, []) (group_trips trip_to_route [] trip_stopseq) of
                     Inl e \<Rightarrow> Inl e
                   | Inr (stops', route_polylines) \<Rightarrow>
                       Inr (route_polylines, map (stop_entry_of \<circ> snd) stops'))))))"

text \<open>
  \<open>parse_gtfs_static\<close>: nothing when the loader returns no path; otherwise the file is
  opened and parsed, and any exception gives the empty results. The storage afterwards is
  returned as well.
\<close>

definition parse_gtfs_static :: "(string \<Rightarrow> int option) \<Rightarrow> (string \<Rightarrow> real option) \<Rightarrow> real \<Rightarrow> content option \<Rightarrow> disk
    \<Rightarrow> ((string \<times> polyline) list \<times> stop_entry list) \<times> disk" where
  "parse_gtfs_static py_int py_float now response d =
     (case download_gtfs_static False now response d of
        (None, d') \<Rightarrow> (([], []), d')
      | (Some zip_path, d') \<Rightarrow>
          (case d' of
             None \<Rightarrow> (([], []), d')
           | Some (mtime, None) \<Rightarrow> (([], []), d')
           | Some (mtime, Some z) \<Rightarrow>
               (case parse_archive py_int py_float z of
                  Inl e \<Rightarrow> (([], []), d')
                | Inr result \<Rightarrow> (result, d'))))"

datatype polylines_response =
    Polylines_ok "polyline list" "stop_entry list" int
  | Polylines_error

text \<open>The endpoint \<open>/api/route-polylines\<close>; \<open>updated_at\<close> is a reading of the clock.\<close>

definition get_route_polylines :: "(string \<Rightarrow> int option) \<Rightarrow> (string \<Rightarrow> real option) \<Rightarrow> real \<Rightarrow> int \<Rightarrow> content option \<Rightarrow> disk
    \<Rightarrow> polylines_response \<times> disk" where
  "get_route_polylines py_int py_float now updated_at response d =
     (case parse_gtfs_static py_int py_float now response d of
        ((route_polylines, stops_list), d') \<Rightarrow>
          (Polylines_ok (map snd route_polylines) stops_list updated_at, d'))"

section \<open>The classification as the specification words it\<close>

text \<open>
  A character of a text is the character \<open>k\<close> of a keyword up to case when it is \<open>k\<close>,
  or \<open>k\<close> is a small letter and it is the capital of \<open>k\<close>. The capital of an ASCII small
  letter is the ASCII capital, 32 below it; the letter \<open>k\<close> has a second capital, U+212A
  KELVIN SIGN. A keyword occurs in a text, ignoring case, when the text has a substring
  that is the keyword up to case, character by character.
\<close>

definition same_letter :: "nat \<Rightarrow> char \<Rightarrow> bool" where
  "same_letter x k =
     (x = of_char k
      \<or> (97 \<le> (of_char k :: nat) \<and> (of_char k :: nat) \<le> 122 \<and> x + 32 = of_char k)
      \<or> (k = CHR ''k'' \<and> x = 0x212A))"

definition occurs_ci :: "string \<Rightarrow> pystr \<Rightarrow> bool" where
  "occurs_ci kw t = (\<exists>ps u ss. t = ps @ u @ ss \<and> list_all2 same_letter u kw)"

definition severity_spec :: "pystr \<Rightarrow> string" where
  "severity_spec t =
     (if occurs_ci ''suspended'' t \<or> occurs_ci ''no service'' t \<or> occurs_ci ''not operating'' t
      then ''service-change''
      else if occurs_ci ''delayed'' t \<or> occurs_ci ''delay'' t \<or> occurs_ci ''running behind'' t
      then ''delay''
      else if occurs_ci ''skip'' t \<or> occurs_ci ''skips'' t
      then ''service-change''
      else if occurs_ci ''express'' t \<and> (occurs_ci ''running'' t \<or> occurs_ci ''skip'' t)
      then ''service-change''
      else if occurs_ci ''modified schedule'' t \<or> occurs_ci ''adjusted schedule'' t
      then ''service-change''
      else ''good'')"

definition service_change_keyword :: "pystr \<Rightarrow> bool" where
  "service_change_keyword t =
     (occurs_ci ''suspended'' t \<or> occurs_ci ''no service'' t \<or> occurs_ci ''not operating'' t
      \<or> occurs_ci ''skip'' t \<or> occurs_ci ''skips'' t
      \<or> (occurs_ci ''express'' t \<and> (occurs_ci ''running'' t \<or> occurs_ci ''skip'' t))
      \<or> occurs_ci ''modified schedule'' t \<or> occurs_ci ''adjusted schedule'' t)"

text \<open>The keyword at the start of a text, up to case; and what the keywords of the code
  have in common: they are not empty, made of small letters and spaces, and do not end
  in \<open>i\<close>.\<close>

definition starts_ci :: "string \<Rightarrow> pystr \<Rightarrow> bool" where
  "starts_ci kw t = (\<exists>u ss. t = u @ ss \<and> list_all2 same_letter u kw)"

definition small :: "char \<Rightarrow> bool" where
  "small k = ((of_char k :: nat) = 32 \<or> (97 \<le> (of_char k :: nat) \<and> (of_char k :: nat) \<le> 122))"

definition keyword :: "string \<Rightarrow> bool" where
  "keyword kw = (kw \<noteq> [] \<and> list_all small kw \<and> last kw \<noteq> CHR ''i'')"

text \<open>Two texts: one with capitals, and one where the \<open>K\<close> of \<open>SKIP\<close> is U+212A.\<close>

definition suspended_text :: pystr where
  "suspended_text = ascii ''Service SUSPENDED in both directions''"

definition delays_text :: pystr where
  "delays_text = ascii ''A train experiencing delays due to signal problems''"

definition kelvin_text :: pystr where
  "kelvin_text = ascii ''Trains S'' @ [0x212A] @ ascii ''IP 23 St''"

section \<open>Notions used to state the properties of the classifier\<close>

text \<open>The rank of a status: its value in \<open>status_priority\<close>.\<close>

definition priority :: "string \<Rightarrow> nat" where
  "priority s = (case status_priority s of Some p \<Rightarrow> p | None \<Rightarrow> 0)"

text \<open>The entry of a route after a message is folded in, when no look-up fails.\<close>

definition folded_entry :: "route_status \<Rightarrow> string \<Rightarrow> message \<Rightarrow> route_info" where
  "folded_entry rs rid msg =
     (case rs rid of
        None \<Rightarrow>
          \<lparr>r_status = (if priority (m_status msg) > 0 then m_status msg else ''good''),
           r_messages = [msg]\<rparr>
      | Some e \<Rightarrow>
          \<lparr>r_status = (if priority (m_status msg) > priority (r_status e) then m_status msg
                        else r_status e),
           r_messages = r_messages e @ [msg]\<rparr>)"

text \<open>The invariant of the mapping: every entry has a message, its status and those of
  its messages are keys of \<open>status_priority\<close>, and the rank of its status is the greatest
  rank of its messages.\<close>

definition route_ok :: "route_info \<Rightarrow> bool" where
  "route_ok e =
     (r_messages e \<noteq> []
      \<and> r_status e \<in> dom status_priority
      \<and> m_status ` set (r_messages e) \<subseteq> dom status_priority
      \<and> priority (r_status e) = Max (priority ` m_status ` set (r_messages e)))"

definition classifier_inv :: "route_status \<Rightarrow> bool" where
  "classifier_inv rs = (\<forall>rid e. rs rid = Some e \<longrightarrow> route_ok e)"

text \<open>A feed with two alerts: one for the routes \<open>A\<close> and \<open>C\<close>, one for the route \<open>A\<close>.\<close>

definition example_feed :: feed where
  "example_feed =
     [\<lparr>trip_update = None,
       alert = Some \<lparr>informed_entity = [Some ''A'', None, Some ''C''],
                     header_text = [ascii ''Delays on the line''], description_text = []\<rparr>\<rparr>,
      \<lparr>trip_update = None,
       alert = Some \<lparr>informed_entity = [Some ''A''],
                     header_text = [ascii ''Service Suspended''], description_text = [ascii ''No trains'']\<rparr>\<rparr>]"

text \<open>A mapping with one route, \<open>A\<close>, that has one message.\<close>

definition example_message :: message where
  "example_message =
     \<lparr>m_header = ascii ''Delays'', m_description = [], m_text = ascii ''Delays'',
      m_status = ''delay''\<rparr>"

definition example_info :: route_info where
  "example_info = \<lparr>r_status = ''delay'', r_messages = [example_message]\<rparr>"

definition example_mapping :: route_status where
  "example_mapping = [''A'' \<mapsto> example_info]"

text \<open>A stop-time update at the station \<open>127\<close>, and a feed with one trip that has it.\<close>

definition example_stop_time :: stop_time_update where
  "example_stop_time = \<lparr>stop_id = ''127N'', arrival = Some 100\<rparr>"

definition example_trip_feed :: feed where
  "example_trip_feed =
     [\<lparr>trip_update = Some \<lparr>route_id = ''1'', stop_time_update = [example_stop_time]\<rparr>,
       alert = None\<rparr>]"

text \<open>
  An archive with the stops \<open>A\<close> and \<open>B\<close> and one trip of the route \<open>R\<close> that calls at
  \<open>A\<close>, at \<open>B\<close> and at \<open>A\<close> again, with readers of the numbers that occur in it.
\<close>

definition example_int :: "string \<Rightarrow> int option" where
  "example_int s =
     (if s = ''1'' then Some 1 else if s = ''2'' then Some 2 else if s = ''3'' then Some 3
      else None)"

definition example_float :: "string \<Rightarrow> real option" where
  "example_float s = (if s = ''1'' then Some 1 else if s = ''2'' then Some 2 else None)"

definition example_archive :: archive where
  "example_archive =
     [''stops.txt'' \<mapsto> Some
        [[''stop_id'' \<mapsto> ''A'', ''stop_name'' \<mapsto> ''Alpha'', ''stop_lat'' \<mapsto> ''1'', ''stop_lon'' \<mapsto> ''1''],
         [''stop_id'' \<mapsto> ''B'', ''stop_name'' \<mapsto> ''Beta'', ''stop_lat'' \<mapsto> ''2'', ''stop_lon'' \<mapsto> ''2'']],
      ''trips.txt'' \<mapsto> Some
        [[''trip_id'' \<mapsto> ''t1'', ''route_id'' \<mapsto> ''R'']],
      ''stop_times.txt'' \<mapsto> Some
        [[''trip_id'' \<mapsto> ''t1'', ''stop_id'' \<mapsto> ''A'', ''stop_sequence'' \<mapsto> ''1''],
         [''trip_id'' \<mapsto> ''t1'', ''stop_id'' \<mapsto> ''B'', ''stop_sequence'' \<mapsto> ''2''],
         [''trip_id'' \<mapsto> ''t1'', ''stop_id'' \<mapsto> ''A'', ''stop_sequence'' \<mapsto> ''3'']]]"

definition example_stops :: "(string \<times> stop) list" where
  "example_stops =
     [(''A'', \<lparr>st_stop_id = ''A'', st_name = ''Alpha'', st_lat = 1, st_lon = 1, st_lines = {}\<rparr>),
      (''B'', \<lparr>st_stop_id = ''B'', st_name = ''Beta'', st_lat = 2, st_lon = 2, st_lines = {}\<rparr>)]"

section \<open>Substring search in a text put in lower case\<close>

lemma startswith_Nil: "startswith s [] = True"
  by (simp add: startswith_def)

lemma startswith_Nil_Cons: "startswith [] (y # ys) = False"
  by (simp add: startswith_def)

lemma startswith_Cons: "startswith (x # xs) (y # ys) = (x = y \<and> startswith xs ys)"
  by (simp add: startswith_def)

lemma of_char_k: "((of_char k :: nat) = 107) = (k = CHR ''k'')"
proof -
  have "(of_char (CHR ''k'') :: nat) = 107" by simp
  then show ?thesis by (metis of_char_eq_iff)
qed

lemma of_char_i: "((of_char k :: nat) = 105) = (k = CHR ''i'')"
proof -
  have "(of_char (CHR ''i'') :: nat) = 105" by simp
  then show ?thesis by (metis of_char_eq_iff)
qed

text \<open>The mapping of a character is never empty, and only its first character can be an
  ASCII character.\<close>

lemma lower_at_shape:
  assumes "beyond_ascii ul"
  shows "\<exists>b bs. lower_at ul pre c suf = b # bs \<and> (\<forall>d \<in> set bs. 128 \<le> d)"
proof (cases "c < 128 \<or> c = 0x212A \<or> c = 0x130")
  case True
  then show ?thesis by (auto simp: lower_at_def)
next
  case False
  then have c: "128 \<le> c \<and> c \<noteq> 0x212A \<and> c \<noteq> 0x130" by simp
  with assms have ne: "ul pre c suf \<noteq> []" and all: "\<forall>d \<in> set (ul pre c suf). 128 \<le> d"
    unfolding beyond_ascii_def by blast+
  from ne obtain b bs where b: "ul pre c suf = b # bs" by (cases "ul pre c suf") auto
  with all have "\<forall>d \<in> set bs. 128 \<le> d" by simp
  moreover from c have "lower_at ul pre c suf = ul pre c suf" by (simp add: lower_at_def)
  ultimately show ?thesis using b by simp
qed

text \<open>The mapping of a character starts a match of a keyword exactly when the character
  is the first character of the keyword up to case.\<close>

lemma lower_at_starts:
  assumes ul: "beyond_ascii ul" and k: "small k"
    and last: "rest = [] \<Longrightarrow> k \<noteq> CHR ''i''"
    and hd: "\<And>r rs. rest = r # rs \<Longrightarrow> r < 128"
  shows "startswith (lower_at ul pre c suf @ R) (of_char k # rest)
      = (same_letter c k \<and> startswith R rest)"
proof -
  let ?n = "of_char k :: nat"
  from k have n: "?n = 32 \<or> (97 \<le> ?n \<and> ?n \<le> 122)" by (simp add: small_def)
  consider (capital) "65 \<le> c" "c \<le> 90"
    | (other_ascii) "c < 128" "\<not> (65 \<le> c \<and> c \<le> 90)"
    | (kelvin) "c = 0x212A"
    | (dotted) "c = 0x130"
    | (table) "128 \<le> c" "c \<noteq> 0x212A" "c \<noteq> 0x130"
    by fastforce
  then show ?thesis
  proof cases
    case capital
    then have "lower_at ul pre c suf = [c + 32]" by (simp add: lower_at_def)
    moreover from capital n have "same_letter c k = (c + 32 = ?n)"
      by (auto simp: same_letter_def)
    ultimately show ?thesis by (simp add: startswith_Cons)
  next
    case other_ascii
    then have "lower_at ul pre c suf = [c]" by (auto simp: lower_at_def)
    moreover from other_ascii n have "same_letter c k = (c = ?n)"
      by (auto simp: same_letter_def)
    ultimately show ?thesis by (simp add: startswith_Cons)
  next
    case kelvin
    then have "lower_at ul pre c suf = [107]" by (simp add: lower_at_def)
    moreover from kelvin n have "same_letter c k = (107 = ?n)"
      using of_char_k [of k] by (auto simp: same_letter_def)
    ultimately show ?thesis by (simp add: startswith_Cons)
  next
    case dotted
    then have l: "lower_at ul pre c suf = [105, 0x307]" by (simp add: lower_at_def)
    from dotted n have s: "\<not> same_letter c k"
      using of_char_k [of k] by (auto simp: same_letter_def)
    have "\<not> startswith ([105, 0x307] @ R) (?n # rest)"
    proof (cases rest)
      case Nil
      then have "?n \<noteq> 105" using last of_char_i [of k] by simp
      then show ?thesis by (simp add: startswith_Cons)
    next
      case (Cons r rs)
      then have "r < 128" by (rule hd)
      then show ?thesis using Cons by (simp add: startswith_Cons)
    qed
    with l s show ?thesis by simp
  next
    case table
    from lower_at_shape [OF ul, of pre c suf] obtain b bs where b: "lower_at ul pre c suf = b # bs"
      by blast
    from table have "lower_at ul pre c suf = ul pre c suf" by (simp add: lower_at_def)
    with b table ul have "128 \<le> b" unfolding beyond_ascii_def by (metis list.set_intros(1))
    with n have "b \<noteq> ?n" by auto
    moreover from table n have "\<not> same_letter c k"
      using of_char_k [of k] by (auto simp: same_letter_def)
    ultimately show ?thesis using b by (simp add: startswith_Cons)
  qed
qed

lemma contains_skip:
  assumes "\<forall>d \<in> set bs. 128 \<le> d" "n < (128::nat)"
  shows "contains (n # rest) (bs @ R) = contains (n # rest) R"
  using assms(1)
proof (induction bs)
  case Nil
  show ?case by simp
next
  case (Cons d bs)
  then have "d \<noteq> n" using assms(2) by auto
  then show ?case using Cons by (simp add: startswith_Cons)
qed

lemma lower_at_contains:
  assumes "beyond_ascii ul" "n < (128::nat)"
  shows "contains (n # rest) (lower_at ul pre c suf @ R)
      = (startswith (lower_at ul pre c suf @ R) (n # rest) \<or> contains (n # rest) R)"
proof -
  from lower_at_shape [OF assms(1), of pre c suf]
  obtain b bs where b: "lower_at ul pre c suf = b # bs" and bs: "\<forall>d \<in> set bs. 128 \<le> d"
    by blast
  show ?thesis
    unfolding b using contains_skip [OF bs assms(2), of rest R] by simp
qed

lemma starts_ci_Nil: "starts_ci [] t"
  by (simp add: starts_ci_def)

lemma starts_ci_Cons_Nil: "\<not> starts_ci (k # ks) []"
  by (simp add: starts_ci_def)

lemma starts_ci_Cons: "starts_ci (k # ks) (c # suf) = (same_letter c k \<and> starts_ci ks suf)"
proof
  assume "starts_ci (k # ks) (c # suf)"
  then obtain u ss where t: "c # suf = u @ ss" and u: "list_all2 same_letter u (k # ks)"
    unfolding starts_ci_def by blast
  from u obtain x xs where x: "u = x # xs" "same_letter x k" "list_all2 same_letter xs ks"
    by (auto simp: list_all2_Cons2)
  with t have "x = c" "suf = xs @ ss" by simp_all
  with x show "same_letter c k \<and> starts_ci ks suf" unfolding starts_ci_def by blast
next
  assume "same_letter c k \<and> starts_ci ks suf"
  then obtain u ss where "suf = u @ ss" "list_all2 same_letter u ks" and c: "same_letter c k"
    unfolding starts_ci_def by blast
  then have "c # suf = (c # u) @ ss" "list_all2 same_letter (c # u) (k # ks)" by simp_all
  then show "starts_ci (k # ks) (c # suf)" unfolding starts_ci_def by blast
qed

lemma occurs_ci_Nil: "kw \<noteq> [] \<Longrightarrow> \<not> occurs_ci kw []"
  by (auto simp: occurs_ci_def)

lemma occurs_ci_Cons: "occurs_ci kw (c # suf) = (starts_ci kw (c # suf) \<or> occurs_ci kw suf)"
proof
  assume "occurs_ci kw (c # suf)"
  then obtain ps u ss where t: "c # suf = ps @ u @ ss" and u: "list_all2 same_letter u kw"
    unfolding occurs_ci_def by blast
  show "starts_ci kw (c # suf) \<or> occurs_ci kw suf"
  proof (cases ps)
    case Nil
    with t u show ?thesis unfolding starts_ci_def by auto
  next
    case (Cons p ps')
    with t have "suf = ps' @ u @ ss" by simp
    with u show ?thesis unfolding occurs_ci_def by blast
  qed
next
  assume "starts_ci kw (c # suf) \<or> occurs_ci kw suf"
  then show "occurs_ci kw (c # suf)"
  proof
    assume "starts_ci kw (c # suf)"
    then obtain u ss where "c # suf = [] @ u @ ss" "list_all2 same_letter u kw"
      unfolding starts_ci_def by auto
    then show ?thesis unfolding occurs_ci_def by blast
  next
    assume "occurs_ci kw suf"
    then obtain ps u ss where "suf = ps @ u @ ss" and u: "list_all2 same_letter u kw"
      unfolding occurs_ci_def by blast
    then have "c # suf = (c # ps) @ u @ ss" by simp
    with u show ?thesis unfolding occurs_ci_def by blast
  qed
qed

lemma small_ascii: "small k \<Longrightarrow> (of_char k :: nat) < 128"
  by (auto simp: small_def)

lemma lower_from_starts:
  assumes "beyond_ascii ul" "list_all small kw" "kw \<noteq> [] \<Longrightarrow> last kw \<noteq> CHR ''i''"
  shows "startswith (lower_from ul pre t) (ascii kw) = starts_ci kw t"
  using assms(2,3)
proof (induction kw arbitrary: pre t)
  case Nil
  show ?case by (simp add: ascii_def startswith_Nil starts_ci_Nil)
next
  case (Cons k ks)
  from Cons.prems have k: "small k" and ks: "list_all small ks" by simp_all
  have last: "ks \<noteq> [] \<Longrightarrow> last ks \<noteq> CHR ''i''" using Cons.prems(2) by simp
  show ?case
  proof (cases t)
    case Nil
    then show ?thesis by (simp add: ascii_def startswith_Nil_Cons starts_ci_Cons_Nil)
  next
    case (Cons c suf)
    have l: "ascii ks = [] \<Longrightarrow> k \<noteq> CHR ''i''"
      using Cons.prems(2) by (simp add: ascii_def)
    have h: "\<And>r rs. ascii ks = r # rs \<Longrightarrow> r < 128"
      using ks small_ascii by (cases ks) (auto simp: ascii_def)
    have "startswith (lower_from ul pre (c # suf)) (ascii (k # ks))
        = startswith (lower_at ul pre c suf @ lower_from ul (pre @ [c]) suf) (of_char k # ascii ks)"
      by (simp add: ascii_def)
    also have "\<dots> = (same_letter c k \<and> startswith (lower_from ul (pre @ [c]) suf) (ascii ks))"
      by (rule lower_at_starts [OF assms(1) k l h])
    also have "\<dots> = (same_letter c k \<and> starts_ci ks suf)"
      using Cons.IH [OF ks last] by simp
    finally show ?thesis unfolding Cons by (simp add: starts_ci_Cons)
  qed
qed

lemma lower_from_contains:
  assumes "beyond_ascii ul" "keyword kw"
  shows "contains (ascii kw) (lower_from ul pre t) = occurs_ci kw t"
proof -
  from assms(2) have ne: "kw \<noteq> []" and sm: "list_all small kw" and la: "last kw \<noteq> CHR ''i''"
    by (simp_all add: keyword_def)
  from ne obtain k ks where kw: "kw = k # ks" by (cases kw) auto
  with sm have "(of_char k :: nat) < 128" using small_ascii by simp
  then have a: "ascii kw = of_char k # ascii ks" "(of_char k :: nat) < 128"
    by (simp_all add: kw ascii_def)
  show ?thesis
  proof (induction t arbitrary: pre)
    case Nil
    show ?case using ne by (simp add: a occurs_ci_Nil)
  next
    case (Cons c suf)
    have "contains (ascii kw) (lower_from ul pre (c # suf))
        = (startswith (lower_from ul pre (c # suf)) (ascii kw)
           \<or> contains (ascii kw) (lower_from ul (pre @ [c]) suf))"
      unfolding a(1) using lower_at_contains [OF assms(1) a(2)] by simp
    also have "\<dots> = (starts_ci kw (c # suf) \<or> occurs_ci kw suf)"
      by (simp only: lower_from_starts [OF assms(1) sm la] Cons.IH)
    finally show ?case by (simp add: occurs_ci_Cons)
  qed
qed

lemma contains_lower_iff:
  assumes "keyword kw" "beyond_ascii ul"
  shows "contains (ascii kw) (lower ul t) = occurs_ci kw t"
  unfolding lower_def by (rule lower_from_contains [OF assms(2,1)])

lemma occurs_ci_prefix:
  assumes "occurs_ci (a @ b) t"
  shows "occurs_ci a t"
proof -
  from assms obtain ps u ss where t: "t = ps @ u @ ss" and u: "list_all2 same_letter u (a @ b)"
    unfolding occurs_ci_def by blast
  from u obtain ua ub where "u = ua @ ub" and ua: "list_all2 same_letter ua a"
    by (auto simp: list_all2_append2)
  with t have "t = ps @ ua @ (ub @ ss)" by simp
  with ua show ?thesis unfolding occurs_ci_def by blast
qed

lemma code_keywords:
  "keyword ''suspended''"
  "keyword ''no service''"
  "keyword ''not operating''"
  "keyword ''delayed''"
  "keyword ''delay''"
  "keyword ''running behind''"
  "keyword ''skip''"
  "keyword ''skips''"
  "keyword ''skip stops''"
  "keyword ''express''"
  "keyword ''running''"
  "keyword ''modified schedule''"
  "keyword ''adjusted schedule''"
  by (simp_all add: keyword_def small_def)

lemmas contains_keywords = code_keywords [THEN contains_lower_iff]

lemma classify_status_spec:
  assumes "beyond_ascii ul"
  shows "classify_status ul t = severity_spec t"
proof -
  have "occurs_ci ''skip stops'' t \<Longrightarrow> occurs_ci ''skip'' t"
    using occurs_ci_prefix [of "''skip''" "'' stops''" t] by simp
  then have e: "(occurs_ci ''skip'' t \<or> occurs_ci ''skips'' t \<or> occurs_ci ''skip stops'' t)
      = (occurs_ci ''skip'' t \<or> occurs_ci ''skips'' t)"
    by blast
  show ?thesis
    unfolding classify_status_def severity_spec_def Let_def contains_keywords [OF assms] e
    by (rule refl)
qed

lemma beyond_ascii_sample: "beyond_ascii sample_lower"
  by (simp add: beyond_ascii_def sample_lower_def)

section \<open>The classifier's invariant\<close>

lemma dom_status_priority: "dom status_priority = {''good'', ''delay'', ''service-change''}"
  by (auto simp: status_priority_def split: if_splits)

lemma priority_inj:
  assumes "s \<in> dom status_priority" "s' \<in> dom status_priority" "priority s = priority s'"
  shows "s = s'"
  using assms unfolding dom_status_priority
  by (auto simp: priority_def status_priority_def)

lemma priority_good: "priority ''good'' = 0"
  by (simp add: priority_def status_priority_def)

lemma status_priority_priority:
  "s \<in> dom status_priority \<Longrightarrow> status_priority s = Some (priority s)"
  by (auto simp: priority_def)

lemma classify_status_dom: "classify_status ul t \<in> dom status_priority"
  unfolding dom_status_priority classify_status_def Let_def by simp

lemma alert_message_status: "m_status (alert_message ul a) \<in> dom status_priority"
  by (simp add: alert_message_def Let_def classify_status_dom)

lemma fold_message_Inr:
  assumes "m_status msg \<in> dom status_priority"
    and "\<And>e. rs rid = Some e \<Longrightarrow> r_status e \<in> dom status_priority"
  shows "fold_message rs rid msg = Inr (rs(rid \<mapsto> folded_entry rs rid msg))"
proof -
  from assms(1) obtain p where p: "status_priority (m_status msg) = Some p" by blast
  show ?thesis
  proof (cases "rs rid")
    case None
    have g: "status_priority ''good'' = Some 0" by (simp add: status_priority_def)
    show ?thesis
      using None p g by (auto simp: fold_message_def folded_entry_def Let_def priority_def)
  next
    case (Some e)
    with assms(2) obtain q where q: "status_priority (r_status e) = Some q" by blast
    show ?thesis
      using Some p q by (auto simp: fold_message_def folded_entry_def Let_def priority_def)
  qed
qed

lemma Max_snoc:
  assumes "ms \<noteq> []"
  shows "Max (f ` set (ms @ [m])) = max (f m) (Max (f ` set ms))"
proof -
  have "f ` set (ms @ [m]) = insert (f m) (f ` set ms)" by auto
  moreover have "finite (f ` set ms)" "f ` set ms \<noteq> {}" using assms by auto
  ultimately show ?thesis by (simp add: Max_insert)
qed

lemma route_ok_new:
  assumes "m_status msg \<in> dom status_priority" "rs rid = None"
  shows "route_ok (folded_entry rs rid msg)"
proof -
  have "''good'' \<in> dom status_priority" by (simp add: dom_status_priority)
  moreover have "\<not> priority (m_status msg) > 0 \<Longrightarrow> priority ''good'' = priority (m_status msg)"
    by (simp add: priority_good)
  ultimately show ?thesis using assms by (auto simp: route_ok_def folded_entry_def)
qed

lemma route_ok_append:
  assumes "m_status msg \<in> dom status_priority" "rs rid = Some e" "route_ok e"
  shows "route_ok (folded_entry rs rid msg)"
proof -
  from assms(3) have ne: "r_messages e \<noteq> []"
    and st: "r_status e \<in> dom status_priority"
    and ms: "m_status ` set (r_messages e) \<subseteq> dom status_priority"
    and mx: "priority (r_status e) = Max (priority ` m_status ` set (r_messages e))"
    by (simp_all add: route_ok_def)
  have "Max (priority ` m_status ` set (r_messages e @ [msg]))
      = max (priority (m_status msg)) (priority (r_status e))"
    using Max_snoc [OF ne, of "priority \<circ> m_status" msg] mx by (simp add: image_comp)
  then show ?thesis
    using assms(1,2) st ms by (auto simp: route_ok_def folded_entry_def max_def)
qed

lemma classifier_inv_upd:
  "classifier_inv rs \<Longrightarrow> route_ok e \<Longrightarrow> classifier_inv (rs(rid \<mapsto> e))"
  by (simp add: classifier_inv_def)

lemma fold_message_inv:
  assumes "classifier_inv rs" "m_status msg \<in> dom status_priority"
  shows "\<exists>rs'. fold_message rs rid msg = Inr rs' \<and> classifier_inv rs'"
proof -
  have st: "\<And>e. rs rid = Some e \<Longrightarrow> r_status e \<in> dom status_priority"
    using assms(1) by (auto simp: classifier_inv_def route_ok_def)
  have "route_ok (folded_entry rs rid msg)"
  proof (cases "rs rid")
    case None
    then show ?thesis by (rule route_ok_new [OF assms(2)])
  next
    case (Some e)
    then have "route_ok e" using assms(1) by (simp add: classifier_inv_def)
    with Some show ?thesis by (rule route_ok_append [OF assms(2)])
  qed
  then have "classifier_inv (rs(rid \<mapsto> folded_entry rs rid msg))"
    by (rule classifier_inv_upd [OF assms(1)])
  then show ?thesis using fold_message_Inr [OF assms(2) st] by simp
qed

lemma fold_message_monotone:
  assumes "classifier_inv rs" "m_status msg \<in> dom status_priority"
  shows "\<exists>rs'. fold_message rs rid msg = Inr rs'
      \<and> (\<forall>r e. rs r = Some e \<longrightarrow>
            (\<exists>e'. rs' r = Some e' \<and> priority (r_status e) \<le> priority (r_status e')
               \<and> (priority (m_status msg) \<le> priority (r_status e) \<longrightarrow> r_status e' = r_status e)))"
proof -
  let ?rs' = "rs(rid \<mapsto> folded_entry rs rid msg)"
  have st: "\<And>e. rs rid = Some e \<Longrightarrow> r_status e \<in> dom status_priority"
    using assms(1) by (auto simp: classifier_inv_def route_ok_def)
  have "fold_message rs rid msg = Inr ?rs'"
    by (rule fold_message_Inr [OF assms(2) st])
  moreover have "\<forall>r e. rs r = Some e \<longrightarrow>
            (\<exists>e'. ?rs' r = Some e' \<and> priority (r_status e) \<le> priority (r_status e')
               \<and> (priority (m_status msg) \<le> priority (r_status e) \<longrightarrow> r_status e' = r_status e))"
    by (auto simp: folded_entry_def)
  ultimately show ?thesis by blast
qed

lemma informed_loop_inv:
  assumes "classifier_inv rs"
  shows "\<exists>rs'. informed_loop ul rs a ies = Inr rs' \<and> classifier_inv rs'"
  using assms
proof (induction ul rs a ies rule: informed_loop.induct)
  case (1 ul rs a)
  then show ?case by simp
next
  case (2 ul rs a ies)
  then show ?case by simp
next
  case (3 ul rs a rid ies)
  from fold_message_inv [OF "3.prems" alert_message_status]
  obtain rs' where f: "fold_message rs rid (alert_message ul a) = Inr rs'" and i: "classifier_inv rs'"
    by blast
  from "3.IH" [OF f i] f show ?case by simp
qed

lemma entity_loop_inv:
  assumes "classifier_inv rs"
  shows "\<exists>rs'. entity_loop ul rs es = Inr rs' \<and> classifier_inv rs'"
  using assms
proof (induction es arbitrary: rs)
  case Nil
  then show ?case by simp
next
  case (Cons e es)
  show ?case
  proof (cases "alert e")
    case None
    then show ?thesis using Cons by simp
  next
    case (Some a)
    from informed_loop_inv [OF Cons.prems]
    obtain rs' where f: "informed_loop ul rs a (informed_entity a) = Inr rs'" and i: "classifier_inv rs'"
      by blast
    from Cons.IH [OF i] Some f show ?thesis by simp
  qed
qed

lemma classifier_inv_empty: "classifier_inv Map.empty"
  by (simp add: classifier_inv_def)

lemma classifier_result_inv: "classifier_inv (get_route_status_from_alerts ul fetched)"
proof (cases fetched)
  case None
  then show ?thesis by (simp add: get_route_status_from_alerts_def classifier_inv_empty)
next
  case (Some feed)
  from entity_loop_inv [OF classifier_inv_empty]
  obtain rs' where "entity_loop ul Map.empty feed = Inr rs'" and "classifier_inv rs'" by blast
  with Some show ?thesis by (simp add: get_route_status_from_alerts_def)
qed

lemma route_ok_member:
  assumes "route_ok e"
  shows "r_status e \<in> m_status ` set (r_messages e)"
proof -
  let ?S = "priority ` m_status ` set (r_messages e)"
  from assms have ne: "r_messages e \<noteq> []"
    and st: "r_status e \<in> dom status_priority"
    and ms: "m_status ` set (r_messages e) \<subseteq> dom status_priority"
    and mx: "priority (r_status e) = Max ?S"
    by (simp_all add: route_ok_def)
  have "finite ?S" "?S \<noteq> {}" using ne by auto
  then have "Max ?S \<in> ?S" by (rule Max_in)
  then obtain m where m: "m \<in> set (r_messages e)" and "priority (m_status m) = priority (r_status e)"
    using mx by auto
  moreover from m ms have "m_status m \<in> dom status_priority" by blast
  ultimately have "m_status m = r_status e" using st priority_inj by blast
  with m show ?thesis by force
qed

lemma lower_ascii_small:
  "lower sample_lower (ascii ''Delays on the line'') = ascii ''delays on the line''"
  by (simp add: lower_def lower_at_def ascii_def)

lemma classify_delays: "classify_status sample_lower (ascii ''Delays on the line'') = ''delay''"
  unfolding classify_status_def Let_def lower_ascii_small
  by (simp add: ascii_def startswith_def)

lemma lower_suspended:
  "lower sample_lower (ascii ''Service Suspended'' @ separator @ ascii ''No trains'')
     = ascii ''service suspended '' @ [0xE2, 0x20AC, 0x201D] @ ascii '' no trains''"
  by (simp add: lower_def lower_at_def ascii_def separator_def sample_lower_def)

lemma classify_suspended:
  "classify_status sample_lower (ascii ''Service Suspended'' @ separator @ ascii ''No trains'')
     = ''service-change''"
  unfolding classify_status_def Let_def lower_suspended
  by (simp add: ascii_def startswith_def)

lemma example_messages:
  "alert_message sample_lower
     \<lparr>informed_entity = ies, header_text = [ascii ''Delays on the line''], description_text = []\<rparr>
     = \<lparr>m_header = ascii ''Delays on the line'', m_description = [],
        m_text = ascii ''Delays on the line'', m_status = ''delay''\<rparr>"
  "alert_message sample_lower
     \<lparr>informed_entity = ies, header_text = [ascii ''Service Suspended''],
      description_text = [ascii ''No trains'']\<rparr>
     = \<lparr>m_header = ascii ''Service Suspended'', m_description = ascii ''No trains'',
        m_text = ascii ''Service Suspended'' @ separator @ ascii ''No trains'',
        m_status = ''service-change''\<rparr>"
proof -
  have c1: "combine_text (ascii ''Delays on the line'') [] = ascii ''Delays on the line''"
    by (simp add: combine_text_def ascii_def)
  have c2: "combine_text (ascii ''Service Suspended'') (ascii ''No trains'')
      = ascii ''Service Suspended'' @ separator @ ascii ''No trains''"
    by (simp add: combine_text_def ascii_def)
  show "alert_message sample_lower
     \<lparr>informed_entity = ies, header_text = [ascii ''Delays on the line''], description_text = []\<rparr>
     = \<lparr>m_header = ascii ''Delays on the line'', m_description = [],
        m_text = ascii ''Delays on the line'', m_status = ''delay''\<rparr>"
    by (simp add: alert_message_def Let_def c1 classify_delays) (simp add: ascii_def)
  show "alert_message sample_lower
     \<lparr>informed_entity = ies, header_text = [ascii ''Service Suspended''],
      description_text = [ascii ''No trains'']\<rparr>
     = \<lparr>m_header = ascii ''Service Suspended'', m_description = ascii ''No trains'',
        m_text = ascii ''Service Suspended'' @ separator @ ascii ''No trains'',
        m_status = ''service-change''\<rparr>"
    by (simp add: alert_message_def Let_def c2 classify_suspended) (simp add: ascii_def separator_def)
qed

lemma example_feed_A:
  "get_route_status_from_alerts sample_lower (Some example_feed) ''A'' =
     Some \<lparr>r_status = ''service-change'',
           r_messages =
             [\<lparr>m_header = ascii ''Delays on the line'', m_description = [],
               m_text = ascii ''Delays on the line'', m_status = ''delay''\<rparr>,
              \<lparr>m_header = ascii ''Service Suspended'', m_description = ascii ''No trains'',
               m_text = ascii ''Service Suspended'' @ separator @ ascii ''No trains'',
               m_status = ''service-change''\<rparr>]\<rparr>"
  by (simp add: get_route_status_from_alerts_def example_feed_def example_messages
      fold_message_def status_priority_def Let_def)

section \<open>The entries of the aggregator\<close>

lemma s_id_service_entry: "s_id (service_entry rs cl) = fst cl"
  by (cases cl) (simp add: service_entry_def split: option.split)

lemma service_entry_present:
  assumes "rs rid = Some info"
  shows "service_entry rs (rid, name, type) =
     \<lparr>s_id = rid, s_name = name, s_type = type, s_status = r_status info,
      s_message = (case r_messages info of [] \<Rightarrow> ascii ''Service alert'' | m # _ \<Rightarrow> m_text m),
      s_messages = r_messages info\<rparr>"
  using assms by (simp add: service_entry_def)

lemma service_entry_absent:
  assumes "rs rid = None"
  shows "service_entry rs (rid, name, type) =
     \<lparr>s_id = rid, s_name = name, s_type = type, s_status = ''good'',
      s_message = ascii ''Good Service'', s_messages = [good_service_message]\<rparr>"
  using assms by (simp add: service_entry_def)

lemma catalog_ids:
  "map fst all_lines =
     [''1'', ''2'', ''3'', ''4'', ''5'', ''6'', ''7'', ''A'', ''B'', ''C'', ''D'', ''E'', ''F'', ''G'',
      ''J'', ''L'', ''M'', ''N'', ''Q'', ''R'', ''W'', ''Z'', ''SI'', ''S'']"
  by (simp add: all_lines_def)

lemma service_data_ids: "map s_id (build_service_data rs) = map fst all_lines"
  by (simp add: build_service_data_def s_id_service_entry)

lemma service_data_entry:
  assumes "s \<in> set (build_service_data rs)"
  shows "case rs (s_id s) of
           Some info \<Rightarrow>
             s_status s = r_status info \<and> s_messages s = r_messages info
             \<and> (\<forall>m ms. r_messages info = m # ms \<longrightarrow> s_message s = m_text m)
         | None \<Rightarrow>
             s_status s = ''good'' \<and> s_message s = ascii ''Good Service''
             \<and> s_messages s = [good_service_message]"
proof -
  from assms obtain rid name type where s: "s = service_entry rs (rid, name, type)"
    by (auto simp: build_service_data_def)
  then have id: "s_id s = rid" by (simp add: s_id_service_entry)
  show ?thesis
  proof (cases "rs rid")
    case None
    then show ?thesis unfolding id s by (simp add: service_entry_absent)
  next
    case (Some info)
    then show ?thesis unfolding id s by (auto simp: service_entry_present)
  qed
qed

section \<open>Claims about the alert classifier\<close>

text \<open>
  Claim C4. For every combined alert text the status is found by case-insensitive
  substring matches tried in a fixed order, the first match winning: \<open>suspended\<close>,
  \<open>no service\<close> or \<open>not operating\<close> give \<open>service-change\<close>; otherwise \<open>delayed\<close>,
  \<open>delay\<close> or \<open>running behind\<close> give \<open>delay\<close>; otherwise \<open>skip\<close> or \<open>skips\<close> give
  \<open>service-change\<close>; otherwise \<open>express\<close> together with \<open>running\<close> or \<open>skip\<close> gives
  \<open>service-change\<close>; otherwise \<open>modified schedule\<close> or \<open>adjusted schedule\<close> give
  \<open>service-change\<close>; otherwise the status is \<open>good\<close>. In particular a text in which
  \<open>suspended\<close> occurs in any case is a \<open>service-change\<close>, and a text in which \<open>delay\<close>
  occurs and no keyword of a service change does is a \<open>delay\<close>. This holds whatever the
  Unicode table maps the other characters beyond ASCII to, as long as it maps them to
  characters beyond ASCII.
\<close>

theorem classify_status_priority_order:
  "beyond_ascii ul \<Longrightarrow>
     classify_status ul t = severity_spec t
     \<and> (occurs_ci ''suspended'' t \<longrightarrow> classify_status ul t = ''service-change'')
     \<and> (occurs_ci ''delay'' t \<and> \<not> service_change_keyword t \<longrightarrow> classify_status ul t = ''delay'')"
  unfolding classify_status_spec
  by (simp add: severity_spec_def service_change_keyword_def)

theorem classify_status_priority_order_witness:
  "beyond_ascii sample_lower
   \<and> occurs_ci ''suspended'' suspended_text
   \<and> classify_status sample_lower suspended_text = ''service-change''
   \<and> occurs_ci ''delay'' delays_text
   \<and> \<not> service_change_keyword delays_text
   \<and> classify_status sample_lower delays_text = ''delay''
   \<and> occurs_ci ''skip'' kelvin_text
   \<and> classify_status sample_lower kelvin_text = severity_spec kelvin_text
   \<and> classify_status sample_lower kelvin_text = ''service-change''"
proof -
  note ck = contains_keywords [OF beyond_ascii_sample, symmetric]
  have ls: "lower sample_lower suspended_text = ascii ''service suspended in both directions''"
    by (simp add: suspended_text_def lower_def lower_at_def ascii_def)
  have ld: "lower sample_lower delays_text
      = ascii ''a train experiencing delays due to signal problems''"
    by (simp add: delays_text_def lower_def lower_at_def ascii_def)
  have lk: "lower sample_lower kelvin_text = ascii ''trains skip 23 st''"
    by (simp add: kelvin_text_def lower_def lower_at_def ascii_def)
  have a: "occurs_ci ''suspended'' suspended_text"
    unfolding ck ls by (simp add: ascii_def startswith_def)
  have b: "occurs_ci ''delay'' delays_text"
    unfolding ck ld by (simp add: ascii_def startswith_def)
  have c: "\<not> service_change_keyword delays_text"
    unfolding service_change_keyword_def ck ld by (simp add: ascii_def startswith_def)
  have d: "occurs_ci ''skip'' kelvin_text"
    unfolding ck lk by (simp add: ascii_def startswith_def)
  have e: "classify_status sample_lower kelvin_text = ''service-change''"
    unfolding classify_status_def Let_def lk by (simp add: ascii_def startswith_def)
  show ?thesis
    using a b c d e beyond_ascii_sample
      classify_status_priority_order [OF beyond_ascii_sample, of suspended_text]
      classify_status_priority_order [OF beyond_ascii_sample, of delays_text]
      classify_status_priority_order [OF beyond_ascii_sample, of kelvin_text]
    by blast
qed

text \<open>
  Claim C5. For every route of the mapping that the classifier returns, the status of
  the route has the greatest rank among the statuses of the route's messages (\<open>good\<close> 0,
  \<open>delay\<close> 1, \<open>service-change\<close> 2), and it is the status of one of them. Folding one
  more message into such a mapping never lowers the rank of the status of a route, and
  a message whose rank is lower than or equal to that of a route's status leaves that
  status as it is.
\<close>

theorem route_status_max_priority:
  "priority ''good'' = 0 \<and> priority ''delay'' = 1 \<and> priority ''service-change'' = 2
   \<and> (\<forall>rid e. get_route_status_from_alerts ul fetched rid = Some e \<longrightarrow>
      status_priority (r_status e) = Some (Max (priority ` m_status ` set (r_messages e)))
      \<and> r_status e \<in> m_status ` set (r_messages e))
   \<and> (m_status msg \<in> dom status_priority \<longrightarrow>
        (\<exists>rs'. fold_message (get_route_status_from_alerts ul fetched) rid' msg = Inr rs'
           \<and> (\<forall>r e. get_route_status_from_alerts ul fetched r = Some e \<longrightarrow>
                 (\<exists>e'. rs' r = Some e' \<and> priority (r_status e) \<le> priority (r_status e')
                    \<and> (priority (m_status msg) \<le> priority (r_status e) \<longrightarrow> r_status e' = r_status e)))))"
proof (intro conjI allI impI)
  show "priority ''good'' = 0" "priority ''delay'' = 1" "priority ''service-change'' = 2"
    by (simp_all add: priority_def status_priority_def)
next
  fix rid e
  assume "get_route_status_from_alerts ul fetched rid = Some e"
  then have ok: "route_ok e" using classifier_result_inv by (auto simp: classifier_inv_def)
  then show "r_status e \<in> m_status ` set (r_messages e)" by (rule route_ok_member)
  from ok show "status_priority (r_status e) = Some (Max (priority ` m_status ` set (r_messages e)))"
    using status_priority_priority [of "r_status e"] by (simp add: route_ok_def)
next
  assume "m_status msg \<in> dom status_priority"
  then show "\<exists>rs'. fold_message (get_route_status_from_alerts ul fetched) rid' msg = Inr rs'
           \<and> (\<forall>r e. get_route_status_from_alerts ul fetched r = Some e \<longrightarrow>
                 (\<exists>e'. rs' r = Some e' \<and> priority (r_status e) \<le> priority (r_status e')
                    \<and> (priority (m_status msg) \<le> priority (r_status e) \<longrightarrow> r_status e' = r_status e)))"
    by (rule fold_message_monotone [OF classifier_result_inv])
qed

theorem route_status_max_priority_witness:
  "(\<exists>e. get_route_status_from_alerts sample_lower (Some example_feed) ''A'' = Some e
        \<and> r_status e = ''service-change''
        \<and> status_priority (r_status e) = Some (Max (priority ` m_status ` set (r_messages e)))
        \<and> r_status e \<in> m_status ` set (r_messages e))
   \<and> m_status good_service_message \<in> dom status_priority
   \<and> priority (m_status good_service_message) \<le> priority ''service-change''
   \<and> (\<exists>rs' e'. fold_message (get_route_status_from_alerts sample_lower (Some example_feed)) ''A'' good_service_message = Inr rs'
         \<and> rs' ''A'' = Some e' \<and> r_status e' = ''service-change'')"
proof -
  have g: "m_status good_service_message \<in> dom status_priority"
    by (simp add: good_service_message_def dom_status_priority)
  have p: "priority (m_status good_service_message) \<le> priority ''service-change''"
    by (simp add: good_service_message_def priority_def status_priority_def)
  show ?thesis
    using route_status_max_priority [of sample_lower "Some example_feed" good_service_message "''A''"]
      example_feed_A g p
    by fastforce
qed

text \<open>
  Claim C10. Every entry of the mapping that the classifier returns has at least one
  message and a status that is \<open>good\<close>, \<open>delay\<close> or \<open>service-change\<close>. The loops of the
  classifier end without an exception for every feed. So the aggregator finds a first
  message for every route of the mapping, and the primary text it emits is the text of
  that message.
\<close>

theorem classifier_entries_nonempty:
  "(\<exists>rs. entity_loop ul Map.empty feed = Inr rs)
   \<and> (\<forall>rid e. get_route_status_from_alerts ul fetched rid = Some e \<longrightarrow>
        r_status e \<in> {''good'', ''delay'', ''service-change''}
        \<and> (\<exists>m ms. r_messages e = m # ms
              \<and> (\<forall>name type. s_message (service_entry (get_route_status_from_alerts ul fetched) (rid, name, type)) = m_text m)))"
proof (intro conjI allI impI)
  show "\<exists>rs. entity_loop ul Map.empty feed = Inr rs"
    using entity_loop_inv [OF classifier_inv_empty, of ul feed] by blast
next
  fix rid e
  assume e: "get_route_status_from_alerts ul fetched rid = Some e"
  then have ok: "route_ok e" using classifier_result_inv by (auto simp: classifier_inv_def)
  then show "r_status e \<in> {''good'', ''delay'', ''service-change''}"
    using dom_status_priority by (simp add: route_ok_def)
  from ok obtain m ms where ms: "r_messages e = m # ms"
    by (auto simp: route_ok_def neq_Nil_conv)
  have "\<forall>name type. s_message (service_entry (get_route_status_from_alerts ul fetched) (rid, name, type)) = m_text m"
    using e ms by (simp add: service_entry_def)
  with ms show "\<exists>m ms. r_messages e = m # ms
      \<and> (\<forall>name type. s_message (service_entry (get_route_status_from_alerts ul fetched) (rid, name, type)) = m_text m)"
    by blast
qed

theorem classifier_entries_nonempty_witness:
  "\<exists>e m ms. get_route_status_from_alerts sample_lower (Some example_feed) ''A'' = Some e
     \<and> r_status e \<in> {''good'', ''delay'', ''service-change''}
     \<and> r_messages e = m # ms
     \<and> m_text m = ascii ''Delays on the line''
     \<and> s_message (service_entry (get_route_status_from_alerts sample_lower (Some example_feed)) (''A'', ''A Line'', ''subway'')) = m_text m"
  using classifier_entries_nonempty [of sample_lower example_feed "Some example_feed"] example_feed_A
  by fastforce

section \<open>Claims about the service status aggregator\<close>

text \<open>
  Claim C6. For every alert mapping, the empty one included, the aggregator emits one
  entry for each of the 24 routes of the catalog, in the catalog's order. The entry of a
  route of the mapping has the route's status and its whole list of messages, and its
  primary text is the text of the first message; the entry of a route that is not in
  the mapping has status \<open>good\<close> and the single synthetic message \<open>Good Service\<close>.
\<close>

theorem service_data_covers_catalog:
  "length (build_service_data rs) = 24
   \<and> map s_id (build_service_data rs) =
       [''1'', ''2'', ''3'', ''4'', ''5'', ''6'', ''7'', ''A'', ''B'', ''C'', ''D'', ''E'', ''F'', ''G'',
        ''J'', ''L'', ''M'', ''N'', ''Q'', ''R'', ''W'', ''Z'', ''SI'', ''S'']
   \<and> (\<forall>s \<in> set (build_service_data rs).
        case rs (s_id s) of
          Some info \<Rightarrow>
            s_status s = r_status info \<and> s_messages s = r_messages info
            \<and> (\<forall>m ms. r_messages info = m # ms \<longrightarrow> s_message s = m_text m)
        | None \<Rightarrow>
            s_status s = ''good'' \<and> s_message s = ascii ''Good Service''
            \<and> s_messages s = [good_service_message])"
proof (intro conjI ballI)
  show ids: "map s_id (build_service_data rs) =
       [''1'', ''2'', ''3'', ''4'', ''5'', ''6'', ''7'', ''A'', ''B'', ''C'', ''D'', ''E'', ''F'', ''G'',
        ''J'', ''L'', ''M'', ''N'', ''Q'', ''R'', ''W'', ''Z'', ''SI'', ''S'']"
    unfolding service_data_ids by (rule catalog_ids)
  have "length (build_service_data rs) = length (map s_id (build_service_data rs))" by simp
  also have "\<dots> = 24" unfolding ids by simp
  finally show "length (build_service_data rs) = 24" .
next
  fix s
  assume "s \<in> set (build_service_data rs)"
  then show "case rs (s_id s) of
          Some info \<Rightarrow>
            s_status s = r_status info \<and> s_messages s = r_messages info
            \<and> (\<forall>m ms. r_messages info = m # ms \<longrightarrow> s_message s = m_text m)
        | None \<Rightarrow>
            s_status s = ''good'' \<and> s_message s = ascii ''Good Service''
            \<and> s_messages s = [good_service_message]"
    by (rule service_data_entry)
qed

theorem service_data_covers_catalog_witness:
  "service_entry example_mapping (''A'', ''A Line'', ''subway'') \<in> set (build_service_data example_mapping)
   \<and> s_id (service_entry example_mapping (''A'', ''A Line'', ''subway'')) = ''A''
   \<and> example_mapping ''A'' = Some example_info
   \<and> r_messages example_info = example_message # []
   \<and> s_status (service_entry example_mapping (''A'', ''A Line'', ''subway'')) = ''delay''
   \<and> s_messages (service_entry example_mapping (''A'', ''A Line'', ''subway'')) = [example_message]
   \<and> s_message (service_entry example_mapping (''A'', ''A Line'', ''subway'')) = ascii ''Delays''
   \<and> service_entry example_mapping (''1'', ''1 Line'', ''subway'') \<in> set (build_service_data example_mapping)
   \<and> example_mapping (s_id (service_entry example_mapping (''1'', ''1 Line'', ''subway''))) = None
   \<and> s_status (service_entry example_mapping (''1'', ''1 Line'', ''subway'')) = ''good''
   \<and> s_messages (service_entry example_mapping (''1'', ''1 Line'', ''subway'')) = [good_service_message]"
proof -
  let ?a = "service_entry example_mapping (''A'', ''A Line'', ''subway'')"
  let ?b = "service_entry example_mapping (''1'', ''1 Line'', ''subway'')"
  have a: "?a \<in> set (build_service_data example_mapping)"
    and b: "?b \<in> set (build_service_data example_mapping)"
    by (simp_all add: build_service_data_def all_lines_def)
  have ia: "s_id ?a = ''A''" and ib: "s_id ?b = ''1''"
    by (simp_all add: s_id_service_entry)
  have ma: "example_mapping ''A'' = Some example_info" and mb: "example_mapping ''1'' = None"
    by (simp_all add: example_mapping_def)
  have r: "r_messages example_info = [example_message]" "r_status example_info = ''delay''"
    "m_text example_message = ascii ''Delays''"
    by (simp_all add: example_info_def example_message_def)
  from service_data_covers_catalog [of example_mapping] a b
  have "case example_mapping (s_id ?a) of
          Some info \<Rightarrow>
            s_status ?a = r_status info \<and> s_messages ?a = r_messages info
            \<and> (\<forall>m ms. r_messages info = m # ms \<longrightarrow> s_message ?a = m_text m)
        | None \<Rightarrow>
            s_status ?a = ''good'' \<and> s_message ?a = ascii ''Good Service''
            \<and> s_messages ?a = [good_service_message]"
    and "case example_mapping (s_id ?b) of
          Some info \<Rightarrow>
            s_status ?b = r_status info \<and> s_messages ?b = r_messages info
            \<and> (\<forall>m ms. r_messages info = m # ms \<longrightarrow> s_message ?b = m_text m)
        | None \<Rightarrow>
            s_status ?b = ''good'' \<and> s_message ?b = ascii ''Good Service''
            \<and> s_messages ?b = [good_service_message]"
    by blast+
  then show ?thesis
    using a b r unfolding ia ib ma mb by simp
qed

section \<open>Claims about the arrival extractor\<close>

lemma floor_div_60: "\<lfloor>real_of_int x / 60\<rfloor> = x div 60"
  using floor_divide_of_int_eq [of x 60] by simp

lemma stop_time_arrival_minutes:
  assumes "stop_time_arrival station_id rid current_time st = Some a"
  shows "0 \<le> minutes a"
  using assms by (auto simp: stop_time_arrival_def split: if_splits option.splits)

lemma stop_time_loop_nonneg:
  assumes "\<forall>a \<in> set arrivals. 0 \<le> minutes a"
  shows "\<forall>a \<in> set (fst (stop_time_loop station_id rid clk (arrivals, k) sts)). 0 \<le> minutes a"
  using assms
proof (induction sts arbitrary: arrivals k)
  case Nil
  then show ?case by simp
next
  case (Cons stop_time rest)
  show ?case
  proof (cases "stop_time_arrival station_id rid (clk k) stop_time")
    case None
    then have "stop_time_loop station_id rid clk (arrivals, k) (stop_time # rest)
        = stop_time_loop station_id rid clk (arrivals, k) rest"
      by simp
    then show ?thesis using Cons.IH [OF Cons.prems] by (simp only:)
  next
    case (Some b)
    then have "0 \<le> minutes b" by (rule stop_time_arrival_minutes)
    with Cons.prems have "\<forall>a \<in> set (arrivals @ [b]). 0 \<le> minutes a" by simp
    moreover from Some have "stop_time_loop station_id rid clk (arrivals, k) (stop_time # rest)
        = stop_time_loop station_id rid clk (arrivals @ [b], Suc k) rest"
      by simp
    ultimately show ?thesis using Cons.IH by (simp only:)
  qed
qed

lemma trip_loop_nonneg:
  assumes "\<forall>a \<in> set (fst st). 0 \<le> minutes a"
  shows "\<forall>a \<in> set (fst (trip_loop station_id clk st es)). 0 \<le> minutes a"
  using assms
proof (induction es arbitrary: st)
  case Nil
  then show ?case by simp
next
  case (Cons e es)
  show ?case
  proof (cases "trip_update e")
    case None
    then have "trip_loop station_id clk st (e # es) = trip_loop station_id clk st es"
      by simp
    then show ?thesis using Cons.IH [OF Cons.prems] by (simp only:)
  next
    case (Some trip)
    obtain arrivals k where st: "st = (arrivals, k)" by (cases st)
    with Cons.prems have "\<forall>a \<in> set arrivals. 0 \<le> minutes a" by simp
    then have "\<forall>a \<in> set (fst (stop_time_loop station_id (route_id trip) clk st (stop_time_update trip))). 0 \<le> minutes a"
      unfolding st by (rule stop_time_loop_nonneg)
    moreover from Some have "trip_loop station_id clk st (e # es)
        = trip_loop station_id clk (stop_time_loop station_id (route_id trip) clk st (stop_time_update trip)) es"
      by simp
    ultimately show ?thesis using Cons.IH by (simp only:)
  qed
qed

lemma feed_loop_nonneg:
  assumes "\<forall>a \<in> set (fst st). 0 \<le> minutes a"
  shows "\<forall>a \<in> set (fst (feed_loop station_id clk st feeds)). 0 \<le> minutes a"
  using assms
proof (induction feeds arbitrary: st)
  case Nil
  then show ?case by simp
next
  case (Cons f feeds)
  show ?case
  proof (cases f)
    case None
    then have "feed_loop station_id clk st (f # feeds) = feed_loop station_id clk st feeds"
      by simp
    then show ?thesis using Cons.IH [OF Cons.prems] by (simp only:)
  next
    case (Some feed)
    have "\<forall>a \<in> set (fst (trip_loop station_id clk st feed)). 0 \<le> minutes a"
      by (rule trip_loop_nonneg [OF Cons.prems])
    moreover from Some have "feed_loop station_id clk st (f # feeds)
        = feed_loop station_id clk (trip_loop station_id clk st feed) feeds"
      by simp
    ultimately show ?thesis using Cons.IH by (simp only:)
  qed
qed

lemma set_arrivals_of_get_arrivals:
  "set (arrivals_of (get_arrivals station_id feeds clk))
     \<subseteq> set (fst (feed_loop station_id clk ([], 0) feeds))"
proof -
  have "set (take 10 (sort_key minutes (fst (feed_loop station_id clk ([], 0) feeds))))
     \<subseteq> set (sort_key minutes (fst (feed_loop station_id clk ([], 0) feeds)))"
    by (rule set_take_subset)
  then show ?thesis by (simp add: get_arrivals_def Let_def)
qed

text \<open>
  Claim C7. For every station identifier and every collection of fetched feeds, the
  endpoint answers with a list of arrivals that is sorted by ascending minutes and has
  at most 10 entries. A feed that could not be fetched contributes nothing.
\<close>

theorem arrivals_sorted_at_most_10:
  "(\<exists>arrivals. get_arrivals station_id feeds clk = Arrivals_ok station_id arrivals
       \<and> sorted (map minutes arrivals) \<and> length arrivals \<le> 10)
   \<and> get_arrivals station_id (None # feeds) clk = get_arrivals station_id feeds clk"
proof
  let ?all = "fst (feed_loop station_id clk ([], 0) feeds)"
  have "sorted (map minutes (sort_key minutes ?all))" by (rule sorted_sort_key)
  then have "sorted (take 10 (map minutes (sort_key minutes ?all)))" by (rule sorted_wrt_take)
  then have "sorted (map minutes (take 10 (sort_key minutes ?all)))" by (simp add: take_map)
  moreover have "length (take 10 (sort_key minutes ?all)) \<le> 10" by simp
  ultimately show "\<exists>arrivals. get_arrivals station_id feeds clk = Arrivals_ok station_id arrivals
       \<and> sorted (map minutes arrivals) \<and> length arrivals \<le> 10"
    by (simp add: get_arrivals_def Let_def)
next
  show "get_arrivals station_id (None # feeds) clk = get_arrivals station_id feeds clk"
    by (simp add: get_arrivals_def)
qed

text \<open>
  Claim C8. For a stop-time update that matches the station and has an arrival time,
  the minutes emitted are \<open>max(0, floor((arrival_time - current_time) / 60))\<close>, and so
  they are not negative, also when the arrival time is before the current time. No
  arrival that the endpoint returns has negative minutes.
\<close>

theorem minutes_clamped_at_zero:
  "(startswith (stop_id st) station_id \<and> arrival st = Some arrival_time \<longrightarrow>
      (\<exists>a. stop_time_arrival station_id rid current_time st = Some a
          \<and> minutes a = max 0 \<lfloor>real_of_int (arrival_time - current_time) / 60\<rfloor>
          \<and> 0 \<le> minutes a))
   \<and> (\<forall>a \<in> set (arrivals_of (get_arrivals station_id feeds clk)). 0 \<le> minutes a)"
proof (intro conjI impI ballI)
  assume "startswith (stop_id st) station_id \<and> arrival st = Some arrival_time"
  then show "\<exists>a. stop_time_arrival station_id rid current_time st = Some a
          \<and> minutes a = max 0 \<lfloor>real_of_int (arrival_time - current_time) / 60\<rfloor>
          \<and> 0 \<le> minutes a"
    unfolding floor_div_60 by (simp add: stop_time_arrival_def)
next
  fix a
  assume "a \<in> set (arrivals_of (get_arrivals station_id feeds clk))"
  then have "a \<in> set (fst (feed_loop station_id clk ([], 0) feeds))"
    using set_arrivals_of_get_arrivals by blast
  moreover have "\<forall>a \<in> set (fst (feed_loop station_id clk ([], 0) feeds)). 0 \<le> minutes a"
    by (rule feed_loop_nonneg) simp
  ultimately show "0 \<le> minutes a" by blast
qed

theorem minutes_clamped_at_zero_witness:
  "startswith (stop_id example_stop_time) ''127''
   \<and> arrival example_stop_time = Some 100
   \<and> stop_time_arrival ''127'' ''1'' 1000 example_stop_time
       = Some \<lparr>line = ''1'', direction = ''Uptown'', minutes = 0\<rparr>
   \<and> max 0 \<lfloor>real_of_int (100 - 1000) / 60\<rfloor> = 0
   \<and> \<lparr>line = ''1'', direction = ''Uptown'', minutes = 0\<rparr>
       \<in> set (arrivals_of (get_arrivals ''127'' [Some example_trip_feed] (\<lambda>k. 1000)))"
proof -
  have h: "startswith (stop_id example_stop_time) ''127'' \<and> arrival example_stop_time = Some 100"
    by (simp add: example_stop_time_def startswith_def)
  have e: "stop_time_arrival ''127'' ''1'' 1000 example_stop_time
       = Some \<lparr>line = ''1'', direction = ''Uptown'', minutes = 0\<rparr>"
    by (simp add: stop_time_arrival_def example_stop_time_def startswith_def endswith_def)
  have g: "\<lparr>line = ''1'', direction = ''Uptown'', minutes = 0\<rparr>
       \<in> set (arrivals_of (get_arrivals ''127'' [Some example_trip_feed] (\<lambda>k. 1000)))"
    by (simp add: get_arrivals_def example_trip_feed_def example_stop_time_def
        stop_time_arrival_def startswith_def endswith_def)
  from minutes_clamped_at_zero [of example_stop_time "''127''" 100 "''1''" 1000] h e
  have "max 0 \<lfloor>real_of_int (100 - 1000) / 60\<rfloor> = (0::int)" by auto
  with h e g show ?thesis by simp
qed

section \<open>The cache of the service status\<close>

lemma fold_max_ge_init: "(a::nat) \<le> fold max xs a"
proof (induction xs arbitrary: a)
  case Nil
  show ?case by simp
next
  case (Cons x xs)
  have "a \<le> max x a" by simp
  also have "\<dots> \<le> fold max xs (max x a)" by (rule Cons.IH)
  finally show ?case by simp
qed

lemma fold_max_ge_member: "x \<in> set xs \<Longrightarrow> (x::nat) \<le> fold max xs a"
proof (induction xs arbitrary: a)
  case Nil
  then show ?case by simp
next
  case (Cons y ys)
  show ?case
  proof (cases "x = y")
    case True
    have "x \<le> max y a" using True by simp
    also have "\<dots> \<le> fold max ys (max y a)" by (rule fold_max_ge_init)
    finally show ?thesis by simp
  next
    case False
    with Cons.prems have "x \<in> set ys" by simp
    then have "x \<le> fold max ys (max y a)" by (rule Cons.IH)
    then show ?thesis by simp
  qed
qed

lemma rows_insert_or_replace:
  "rows (insert_or_replace t rid status msg updated_at) =
     rows t @ [\<lparr>c_id = Suc (max (last_id t) (fold max (map c_id (rows t)) 0)),
                c_route_id = rid, c_status = status, c_message = msg,
                c_updated_at = updated_at\<rparr>]"
proof -
  let ?new = "Suc (max (last_id t) (fold max (map c_id (rows t)) 0))"
  have "\<forall>r \<in> set (rows t). c_id r \<noteq> ?new"
  proof
    fix r
    assume "r \<in> set (rows t)"
    then have "c_id r \<in> set (map c_id (rows t))" by simp
    then have "c_id r \<le> fold max (map c_id (rows t)) 0" by (rule fold_max_ge_member)
    then show "c_id r \<noteq> ?new" by simp
  qed
  then have "filter (\<lambda>r. c_id r \<noteq> ?new) (rows t) = rows t" by simp
  then show ?thesis by (simp add: insert_or_replace_def Let_def)
qed

lemma route_ids_cache_results:
  "map c_route_id (rows (cache_results clk k t service_data)) =
     map c_route_id (rows t) @ map s_id service_data"
proof (induction service_data arbitrary: k t)
  case Nil
  show ?case by simp
next
  case (Cons service rest)
  show ?case by (simp add: Cons.IH rows_insert_or_replace)
qed

lemma cache_cycle_appends:
  "map c_route_id (rows (snd (get_service_status ul fetched True read_ok clk t))) =
     map c_route_id (rows t) @ map fst all_lines"
  by (simp add: get_service_status_def Let_def route_ids_cache_results service_data_ids)

section \<open>The loop over the representative trip\<close>

text \<open>Every identifier adds at most one pair of coordinates, however often and wherever
  it occurs in the trip: the loop appends one pair for each identifier that it adds to
  \<open>seen\<close>.\<close>

lemma coords_loop_seen:
  assumes "finite seen"
    and "coords_loop rid (stops, coords, seen) best = (stops', coords', seen')"
  shows "seen \<subseteq> seen' \<and> seen' \<subseteq> seen \<union> set best \<and> finite seen'
    \<and> length coords' = length coords + card (seen' - seen)"
  using assms
proof (induction best arbitrary: stops coords seen)
  case Nil
  then show ?case by simp
next
  case (Cons sid rest)
  show ?case
  proof (cases "map_of stops sid = None \<or> sid \<in> seen")
    case True
    then have "coords_loop rid (stops, coords, seen) (sid # rest)
        = coords_loop rid (stops, coords, seen) rest"
      by (auto split: option.splits)
    with Cons.prems(2) have "coords_loop rid (stops, coords, seen) rest = (stops', coords', seen')"
      by simp
    from Cons.IH [OF Cons.prems(1) this] show ?thesis by auto
  next
    case False
    then obtain s where s: "map_of stops sid = Some s" and new: "sid \<notin> seen" by auto
    let ?stops = "AList.update sid (s\<lparr>st_lines := insert rid (st_lines s)\<rparr>) stops"
    from s new Cons.prems(2)
    have run: "coords_loop rid (?stops, coords @ [(st_lat s, st_lon s)], insert sid seen) rest
        = (stops', coords', seen')"
      by simp
    have fin: "finite (insert sid seen)" using Cons.prems(1) by simp
    from Cons.IH [OF fin run]
    have sub: "insert sid seen \<subseteq> seen'"
      and sup: "seen' \<subseteq> insert sid seen \<union> set rest"
      and fin': "finite seen'"
      and len: "length coords' = length (coords @ [(st_lat s, st_lon s)]) + card (seen' - insert sid seen)"
      by simp_all
    have eq: "seen' - seen = insert sid (seen' - insert sid seen)" using sub new by auto
    have "sid \<notin> seen' - insert sid seen" by simp
    moreover have "finite (seen' - insert sid seen)" using fin' by simp
    ultimately have "card (insert sid (seen' - insert sid seen)) = Suc (card (seen' - insert sid seen))"
      by (rule card_insert_disjoint [rotated])
    then have "card (seen' - seen) = Suc (card (seen' - insert sid seen))"
      unfolding eq .
    with len have "length coords' = length coords + card (seen' - seen)" by simp
    with sub sup fin' show ?thesis by auto
  qed
qed

lemma coords_loop_length:
  assumes "coords_loop rid (stops, [], {}) best = (stops', coords', seen')"
  shows "length coords' \<le> card (set best)"
proof -
  from coords_loop_seen [OF _ assms]
  have "seen' \<subseteq> set best" and "length coords' = card seen'" by simp_all
  then show ?thesis by (simp add: card_mono)
qed

section \<open>Claims about the cache, the loader and the topology builder\<close>

text \<open>
  Claim C2 says that the cache holds at most one row for each route after every cycle.
  The table has no uniqueness constraint on \<open>route_id\<close>, so \<open>INSERT OR REPLACE\<close> finds no
  row to replace and every cycle appends 24 rows (lemma \<open>cache_cycle_appends\<close>). Starting
  from the empty table, with no alerts, the first cycle leaves one row for route \<open>1\<close> and
  the second leaves two, among 48 rows.
\<close>

theorem cache_rows_accumulate:
  "length (filter (\<lambda>r. c_route_id r = ''1'')
      (rows (snd (get_service_status sample_lower None True True (\<lambda>k. 0) empty_table)))) = 1
   \<and> length (filter (\<lambda>r. c_route_id r = ''1'')
      (rows (snd (get_service_status sample_lower None True True (\<lambda>k. 0)
         (snd (get_service_status sample_lower None True True (\<lambda>k. 0) empty_table)))))) = 2
   \<and> length (rows (snd (get_service_status sample_lower None True True (\<lambda>k. 0)
         (snd (get_service_status sample_lower None True True (\<lambda>k. 0) empty_table))))) = 48"
proof -
  let ?t1 = "snd (get_service_status sample_lower None True True (\<lambda>k. 0) empty_table)"
  let ?t2 = "snd (get_service_status sample_lower None True True (\<lambda>k. 0) ?t1)"
  have r1: "map c_route_id (rows ?t1) = map fst all_lines"
    using cache_cycle_appends [of sample_lower None True "\<lambda>k. 0" empty_table]
    by (simp add: empty_table_def)
  have r2: "map c_route_id (rows ?t2) = map fst all_lines @ map fst all_lines"
    using cache_cycle_appends [of sample_lower None True "\<lambda>k. 0" ?t1] r1 by simp
  have cnt: "\<And>rs. length (filter (\<lambda>r. c_route_id r = ''1'') rs)
      = length (filter (\<lambda>i. i = ''1'') (map c_route_id rs))"
    by (simp add: filter_map comp_def)
  have "length (filter (\<lambda>r. c_route_id r = ''1'') (rows ?t1)) = 1"
    unfolding cnt r1 catalog_ids by simp
  moreover have "length (filter (\<lambda>r. c_route_id r = ''1'') (rows ?t2)) = 2"
    unfolding cnt r2 catalog_ids by simp
  moreover have "length (rows ?t2) = length (map c_route_id (rows ?t2))" by simp
  then have "length (rows ?t2) = 48" unfolding r2 catalog_ids by simp
  ultimately show ?thesis by simp
qed

text \<open>
  Claim C3 says that a failed download with a stale cached file still returns the path
  of the stale file. At time 100000, with a file written at time 0 and a request that
  fails, the loader returns \<open>None\<close>.
\<close>

theorem stale_cache_not_returned:
  "\<not> ((100000::real) - 0 < GTFS_CACHE_TTL)
   \<and> fst (download_gtfs_static False 100000 None (Some (0, Some Map.empty))) = None
   \<and> fst (download_gtfs_static False 100000 None (Some (0, Some Map.empty))) \<noteq> Some GTFS_ZIP_PATH"
  by (simp add: download_gtfs_static_def fetch_static_def GTFS_CACHE_TTL_def)

text \<open>
  Claim C3, amended. When a cached copy exists that is older than the freshness window
  and the download fails, the loader returns no path, and the stale file stays on the
  local storage as it was.
\<close>

theorem stale_cache_download_failure:
  "\<not> (now - mtime < GTFS_CACHE_TTL) \<Longrightarrow>
     download_gtfs_static force now None (Some (mtime, c)) = (None, Some (mtime, c))"
  by (simp add: download_gtfs_static_def fetch_static_def)

theorem stale_cache_download_failure_witness:
  "\<not> ((100000::real) - 0 < GTFS_CACHE_TTL)
   \<and> download_gtfs_static False 100000 None (Some (0, Some Map.empty))
       = (None, Some (0, Some Map.empty))"
proof -
  have h: "\<not> ((100000::real) - 0 < GTFS_CACHE_TTL)" by (simp add: GTFS_CACHE_TTL_def)
  from stale_cache_download_failure [OF h] h show ?thesis by simp
qed

text \<open>
  Claim C9. When the download fails and no cached copy exists, the loader returns no
  path, the topology builder returns an empty polyline map and an empty list of stops,
  and the endpoint answers with success, no route and no stop.
\<close>

theorem polylines_empty_when_unavailable:
  "download_gtfs_static False now None None = (None, None)
   \<and> parse_gtfs_static py_int py_float now None None = (([], []), None)
   \<and> get_route_polylines py_int py_float now updated_at None None
       = (Polylines_ok [] [] updated_at, None)"
  by (simp add: get_route_polylines_def parse_gtfs_static_def download_gtfs_static_def
      fetch_static_def)

text \<open>
  Claim C1 says that a stop is skipped only when it repeats the stop just before it. The
  loop keeps a set of all the identifiers seen, so a stop that comes back later in the
  trip is skipped as well (lemma \<open>coords_loop_length\<close>: a polyline has no more points
  than its trip has distinct stops). For the trip \<open>A\<close>, \<open>B\<close>, \<open>A\<close> the coordinates are
  those of \<open>A\<close> and \<open>B\<close> only.
\<close>

theorem nonadjacent_repeat_skipped:
  "fst (snd (coords_loop ''R'' (example_stops, [], {}) [''A'', ''B'', ''A''])) = [(1, 1), (2, 2)]
   \<and> parse_archive example_int example_float example_archive =
       Inr ([(''R'', \<lparr>p_id = ''R'', p_name = ''R'', p_coordinates = [(1, 1), (2, 2)]\<rparr>)],
            [\<lparr>e_id = ''A'', e_name = ''Alpha'', e_lat = 1, e_lon = 1, e_lines = [''R'']\<rparr>,
             \<lparr>e_id = ''B'', e_name = ''Beta'', e_lat = 2, e_lon = 2, e_lines = [''R'']\<rparr>])"
  by code_simp

end
